theory Spec2Isabelle
  imports Complex_Main
begin

section \<open>Data model\<close>

text \<open>
  A tile value is a JavaScript string.  Only the identity of the strings matters to the
  engine (they are compared with \<open>===\<close> and tested for truthiness), so a string is kept
  as the list of its Unicode code points; the empty list is the empty string, the one
  falsy string.  A cell of the grid holds a tile value or \<open>null\<close> (\<open>None\<close>).
\<close>

type_synonym emoji = "int list"
type_synonym cell = "emoji option"

text \<open>
  \<open>this.emojis\<close> and \<open>this.specialEmojis\<close> of \<open>GameBoard\<close>, set once by the constructor.
  Each of the thirteen string literals is one emoji; it is named here after what it
  shows and holds the code point of that emoji.  The thirteen strings are different and
  none is empty.
\<close>

definition apple :: emoji where "apple = [0x1F34E]"
definition banana :: emoji where "banana = [0x1F34C]"
definition grapes :: emoji where "grapes = [0x1F347]"
definition strawberry :: emoji where "strawberry = [0x1F353]"
definition avocado :: emoji where "avocado = [0x1F951]"
definition pizza :: emoji where "pizza = [0x1F355]"
definition donut :: emoji where "donut = [0x1F369]"
definition star :: emoji where "star = [0x2B50]"
definition fire :: emoji where "fire = [0x1F525]"
definition gem :: emoji where "gem = [0x1F48E]"
definition bolt :: emoji where "bolt = [0x26A1]"
definition blast :: emoji where "blast = [0x1F4A5]"
definition arc :: emoji where "arc = [0x1F308]"

lemmas tile_defs =
  apple_def banana_def grapes_def strawberry_def avocado_def pizza_def donut_def star_def
  fire_def gem_def bolt_def blast_def arc_def

definition emojis :: "emoji list" where
  "emojis = [apple, banana, grapes, strawberry, avocado, pizza, donut, star, fire, gem]"

datatype specialType = striped | bomb | rainbow

definition specialEmojis :: "(specialType \<times> emoji) list" where
  "specialEmojis = [(striped, bolt), (bomb, blast), (rainbow, arc)]"

text \<open>A position object \<open>{row, col}\<close>; the coordinates are numbers and may be negative.\<close>

datatype position = Pos (row: int) (col: int)

record board =
  sizeB :: int
  grid :: "cell list list"

text \<open>
  A valid grid: \<open>size\<close> rows of \<open>size\<close> cells.  Every indexed access of the source is
  guarded by the bounds of the board, so on a valid grid no access is out of range.
\<close>

definition wf_board :: "board \<Rightarrow> bool" where
  "wf_board b \<longleftrightarrow> 0 < sizeB b \<and> length (grid b) = nat (sizeB b) \<and>
     (\<forall>r \<in> set (grid b). length r = nat (sizeB b))"

section \<open>GameBoard\<close>

text \<open>\<open>this.grid[row][col]\<close> and \<open>this.grid[row][col] = v\<close>.\<close>

definition gridAt :: "board \<Rightarrow> int \<Rightarrow> int \<Rightarrow> cell" where
  "gridAt b r c = grid b ! nat r ! nat c"

definition gridSet :: "board \<Rightarrow> int \<Rightarrow> int \<Rightarrow> cell \<Rightarrow> board" where
  "gridSet b r c v = b\<lparr>grid := (grid b)[nat r := (grid b ! nat r)[nat c := v]]\<rparr>"

definition getEmoji :: "board \<Rightarrow> int \<Rightarrow> int \<Rightarrow> cell" where
  "getEmoji b r c =
     (if r < 0 \<or> r \<ge> sizeB b \<or> c < 0 \<or> c \<ge> sizeB b then None else gridAt b r c)"

definition isValidPosition :: "board \<Rightarrow> int \<Rightarrow> int \<Rightarrow> bool" where
  "isValidPosition b r c \<longleftrightarrow> r \<ge> 0 \<and> r < sizeB b \<and> c \<ge> 0 \<and> c < sizeB b"

definition setEmoji :: "board \<Rightarrow> int \<Rightarrow> int \<Rightarrow> cell \<Rightarrow> board" where
  "setEmoji b r c v = (if isValidPosition b r c then gridSet b r c v else b)"

definition swapEmojis :: "board \<Rightarrow> position \<Rightarrow> position \<Rightarrow> bool \<times> board" where
  "swapEmojis b pos1 pos2 =
     (if \<not> isValidPosition b (row pos1) (col pos1) \<or>
         \<not> isValidPosition b (row pos2) (col pos2)
      then (False, b)
      else
        let temp = gridAt b (row pos1) (col pos1);
            b1 = gridSet b (row pos1) (col pos1) (gridAt b (row pos2) (col pos2));
            b2 = gridSet b1 (row pos2) (col pos2) temp
        in (True, b2))"

definition createSpecialEmoji :: "board \<Rightarrow> int \<Rightarrow> int \<Rightarrow> specialType \<Rightarrow> board" where
  "createSpecialEmoji b r c t =
     (if isValidPosition b r c then gridSet b r c (map_of specialEmojis t) else b)"

text \<open>
  \<open>Object.values(this.specialEmojis).includes(emoji)\<close>; the argument is whatever a cell
  holds, \<open>null\<close> included.
\<close>

definition isSpecialEmoji :: "cell \<Rightarrow> bool" where
  "isSpecialEmoji c = (case c of None \<Rightarrow> False | Some e \<Rightarrow> e \<in> set (map snd specialEmojis))"

definition getSpecialType :: "cell \<Rightarrow> specialType option" where
  "getSpecialType c =
     (case find (\<lambda>(t, specialEmoji). Some specialEmoji = c) specialEmojis of
        Some (t, specialEmoji) \<Rightarrow> Some t
      | None \<Rightarrow> None)"

section \<open>MatchDetector: the match scan\<close>

text \<open>
  A match object.  The \<open>type\<close> field (\<open>'horizontal'\<close>, \<open>'vertical'\<close>, \<open>'shaped'\<close>) is
  the constructor; each constructor carries the fields the source gives that kind of
  object, so that \<open>m.type === 'shaped'\<close> is \<open>isShaped m\<close>.  The fields \<open>length\<close>, \<open>row\<close>
  and \<open>col\<close> are named \<open>lengthM\<close>, \<open>rowM\<close> and \<open>colM\<close> here.  A shaped match has no
  \<open>length\<close> field.
\<close>

datatype shape = L | T

datatype match =
    isHorizontal: Horizontal (emoji: emoji) (positions: "position list") (lengthM: int)
               (rowM: int) (startCol: int) (endCol: int)
  | isVertical: Vertical (emoji: emoji) (positions: "position list") (lengthM: int)
             (colM: int) (startRow: int) (endRow: int)
  | isShaped: Shaped (subType: shape) (emoji: emoji) (positions: "position list")
           (intersection: position) (horizontalMatch: match) (verticalMatch: match)

text \<open>
  \<open>findMatches\<close> runs the same scan twice, once along the rows and once along the columns,
  the second copy being the first with \<open>row\<close> and \<open>col\<close> exchanged.  The model has the scan
  once, with the orientation as a parameter: \<open>line\<close> is the row of a horizontal scan and
  the column of a vertical one, and the index runs along the line.
\<close>

datatype orientation = horizontal | vertical

fun posAt :: "orientation \<Rightarrow> int \<Rightarrow> int \<Rightarrow> position" where
  "posAt horizontal line i = Pos line i"
| "posAt vertical line i = Pos i line"

definition emojiAt :: "board \<Rightarrow> orientation \<Rightarrow> int \<Rightarrow> int \<Rightarrow> cell" where
  "emojiAt b ori line i = getEmoji b (row (posAt ori line i)) (col (posAt ori line i))"

fun mkMatch :: "orientation \<Rightarrow> emoji \<Rightarrow> position list \<Rightarrow> int \<Rightarrow> int \<Rightarrow> int \<Rightarrow> match" where
  "mkMatch horizontal e ps len line start = Horizontal e ps len line start (start + len - 1)"
| "mkMatch vertical e ps len line start = Vertical e ps len line start (start + len - 1)"

text \<open>
  The inner \<open>while\<close> loop, counting the cells after the first that hold the same value:
  it returns \<open>matchLength\<close> and \<open>currentCol\<close> (\<open>currentRow\<close>).
\<close>

function countRun :: "board \<Rightarrow> orientation \<Rightarrow> int \<Rightarrow> emoji \<Rightarrow> int \<Rightarrow> int \<Rightarrow> int \<times> int" where
  "countRun b ori line e matchLength current =
     (if current < sizeB b \<and> emojiAt b ori line current = Some e
      then countRun b ori line e (matchLength + 1) (current + 1)
      else (matchLength, current))"
  by pat_completeness auto
termination
  by (relation "measure (\<lambda>(b, ori, line, e, matchLength, current). nat (sizeB b - current))") auto

declare countRun.simps [simp del]

text \<open>
  The loop that fills \<open>match.positions\<close>: a cell of the run is pushed unless its key is in
  \<open>visited\<close> already, and is then added to \<open>visited\<close>.  The \<open>Set\<close> of keys
  \<open>`${row}-${col}`\<close> is the list of the positions added, in the order of their insertion;
  rows and columns here are non-negative integers, for which the key determines the
  position.
\<close>

definition collect ::
  "orientation \<Rightarrow> int \<Rightarrow> int \<Rightarrow> int \<Rightarrow> position list \<Rightarrow> position list \<times> position list" where
  "collect ori line start matchLength visited =
     fold (\<lambda>c (ps, vis).
             if posAt ori line c \<in> set vis then (ps, vis)
             else (ps @ [posAt ori line c], vis @ [posAt ori line c]))
          [start..start + matchLength - 1] ([], visited)"

text \<open>
  The body of the loop along one line, at index \<open>i\<close>: it returns the value the loop
  variable has when the body ends (\<open>currentCol - 1\<close> after a match, else unchanged) and
  the new \<open>matches\<close> and \<open>visited\<close>.
\<close>

definition lineStep ::
  "board \<Rightarrow> orientation \<Rightarrow> int \<Rightarrow> int \<Rightarrow> match list \<times> position list
     \<Rightarrow> int \<times> match list \<times> position list" where
  "lineStep b ori line i = (\<lambda>(matches, visited).
     case emojiAt b ori line i of
       None \<Rightarrow> (i, matches, visited)
     | Some e \<Rightarrow>
         if e = [] \<or> isSpecialEmoji (Some e) then (i, matches, visited)
         else
           (case countRun b ori line e 1 (i + 1) of (matchLength, current) \<Rightarrow>
              if matchLength \<ge> 3 then
                (case collect ori line i matchLength visited of (ps, visited') \<Rightarrow>
                   (current - 1,
                    if length ps > 0 then matches @ [mkMatch ori e ps matchLength line i]
                    else matches,
                    visited'))
              else (i, matches, visited)))"

text \<open>
  The \<open>for\<close> loop along one line, from index \<open>i\<close> on: the body, then the increment.
\<close>

function scanLine ::
  "board \<Rightarrow> orientation \<Rightarrow> int \<Rightarrow> int \<Rightarrow> match list \<times> position list \<Rightarrow> match list \<times> position list" where
  "scanLine b ori line i acc =
     (if i < sizeB b - 2 then
        (case lineStep b ori line i acc of (i', acc') \<Rightarrow> scanLine b ori line (i' + 1) acc')
      else acc)"
  by pat_completeness auto
termination
proof -
  have le: "c \<le> snd (countRun b ori line e l c)" for b ori line e l c
  proof (induction b ori line e l c rule: countRun.induct)
    case (1 b ori line e matchLength current)
    show ?case
    proof (cases "current < sizeB b \<and> emojiAt b ori line current = Some e")
      case True
      with 1 show ?thesis by (subst countRun.simps) simp
    next
      case False
      then show ?thesis by (subst countRun.simps) auto
    qed
  qed
  have adv: "i \<le> fst (lineStep b ori line i acc)" for b ori line i acc
  proof -
    have "i + 1 \<le> current" if "countRun b ori line e 1 (i + 1) = (matchLength, current)"
      for e matchLength current
      using le [of "i + 1" b ori line e 1] that by simp
    then show ?thesis
      by (fastforce simp: lineStep_def split: prod.splits option.splits)
  qed
  show ?thesis
  proof (relation "measure (\<lambda>(b, ori, line, i, acc). nat (sizeB b - i))", goal_cases)
    case 1
    show ?case by simp
  next
    case (2 b ori line i acc x y)
    from 2(2) have "fst (lineStep b ori line i acc) = x" by (metis fst_conv)
    with adv [of i b ori line acc] 2(1) show ?case by simp
  qed
qed

declare scanLine.simps [simp del]

definition findMatches :: "board \<Rightarrow> match list" where
  "findMatches b =
     (let acc = fold (\<lambda>row acc. scanLine b horizontal row 0 acc) [0..sizeB b - 1] ([], []);
          acc' = fold (\<lambda>col acc. scanLine b vertical col 0 acc) [0..sizeB b - 1] acc
      in fst acc')"

section \<open>MatchDetector: shaped matches, special tiles, score\<close>

definition getShapeType :: "match \<Rightarrow> match \<Rightarrow> shape" where
  "getShapeType hMatch vMatch =
     (let totalLength = lengthM hMatch + lengthM vMatch - 1
      in if totalLength \<ge> 5 then T else L)"

text \<open>
  The loop that removes duplicates: a position is pushed to \<open>uniquePositions\<close> unless its
  key is in \<open>posSet\<close>.  \<open>getAllMatchPositions\<close> runs the same loop over the positions of
  all the matches.
\<close>

fun removeDuplicates :: "position list \<Rightarrow> position list \<Rightarrow> position list \<Rightarrow> position list" where
  "removeDuplicates [] uniquePositions posSet = uniquePositions"
| "removeDuplicates (pos # rest) uniquePositions posSet =
     (if pos \<in> set posSet then removeDuplicates rest uniquePositions posSet
      else removeDuplicates rest (uniquePositions @ [pos]) (posSet @ [pos]))"

text \<open>
  \<open>findShapedMatches\<close> reads \<open>this.lastMatches\<close>, which the last \<open>findMatches\<close> has set.
  The two nested \<open>for\<close> loops push in the order of the pairs.
\<close>

definition findShapedMatches :: "match list \<Rightarrow> match list" where
  "findShapedMatches lastMatches =
     (let horizontalMatches = filter isHorizontal lastMatches;
          verticalMatches = filter isVertical lastMatches
      in concat (map (\<lambda>hMatch. concat (map (\<lambda>vMatch.
           if rowM hMatch \<ge> startRow vMatch \<and> rowM hMatch \<le> endRow vMatch \<and>
              colM vMatch \<ge> startCol hMatch \<and> colM vMatch \<le> endCol hMatch \<and>
              emoji hMatch = emoji vMatch
           then [Shaped (getShapeType hMatch vMatch) (emoji hMatch)
                   (removeDuplicates (positions hMatch @ positions vMatch) [] [])
                   (Pos (rowM hMatch) (colM vMatch)) hMatch vMatch]
           else []) verticalMatches)) horizontalMatches))"

record detector =
  lastMatches :: "match list"
  comboMultiplier :: int
  maxComboMultiplier :: int

datatype special = Special (typeS: specialType) (position: position) (originalMatch: match)

definition getMiddlePosition :: "match \<Rightarrow> position option" where
  "getMiddlePosition m =
     (if length (positions m) = 0 then None
      else let middleIndex = length (positions m) div 2 in Some (positions m ! middleIndex))"

text \<open>
  The body of the loop of \<open>createSpecialEmojis\<close>: the special type and the position chosen
  for one match, \<open>null\<close> being \<open>None\<close>.  A shaped match has no \<open>length\<close>, so neither
  comparison of the source holds for it.
\<close>

definition specialChoice :: "match \<Rightarrow> specialType option \<times> position option" where
  "specialChoice m =
     (if isShaped m then (Some bomb, Some (intersection m))
      else if lengthM m = 4 then (Some striped, getMiddlePosition m)
      else if lengthM m \<ge> 5 then (Some rainbow, getMiddlePosition m)
      else (None, None))"

definition createSpecialEmojis :: "match list \<Rightarrow> special list" where
  "createSpecialEmojis matches =
     fold (\<lambda>m created.
             case specialChoice m of
               (Some specialType, Some pos) \<Rightarrow> created @ [Special specialType pos m]
             | _ \<Rightarrow> created)
          matches []"

record scoreData =
  baseScore :: int
  specialBonus :: int
  multiplier :: int
  totalScore :: int

definition matchScore :: "match \<Rightarrow> int" where
  "matchScore m =
     (if isShaped m then int (length (positions m)) * 25
      else if lengthM m = 3 then int (length (positions m)) * 10
      else if lengthM m = 4 then int (length (positions m)) * 20
      else if lengthM m \<ge> 5 then int (length (positions m)) * 50
      else 0)"

text \<open>
  The combo multiplier is an integer wherever the program sets it, so the product is an
  integer and \<open>Math.floor\<close> returns it as it is.
\<close>

definition calculateScore :: "detector \<Rightarrow> match list \<Rightarrow> special list \<Rightarrow> scoreData" where
  "calculateScore d matches created =
     (let base = fold (\<lambda>m acc. acc + matchScore m) matches 0;
          bonus = int (length created) * 100;
          total = (base + bonus) * comboMultiplier d
      in \<lparr>baseScore = base, specialBonus = bonus,
          multiplier = comboMultiplier d,
          totalScore = \<lfloor>real_of_int total\<rfloor>\<rparr>)"

definition updateComboMultiplier :: "detector \<Rightarrow> bool \<Rightarrow> detector" where
  "updateComboMultiplier d matched =
     (if matched
      then d\<lparr>comboMultiplier := min (comboMultiplier d + 1) (maxComboMultiplier d)\<rparr>
      else d\<lparr>comboMultiplier := 1\<rparr>)"

definition resetComboMultiplier :: "detector \<Rightarrow> detector" where
  "resetComboMultiplier d = d\<lparr>comboMultiplier := 1\<rparr>"

definition getAllMatchPositions :: "match list \<Rightarrow> position list" where
  "getAllMatchPositions matches = removeDuplicates (concat (map positions matches)) [] []"

section \<open>GameBoard: possible moves\<close>

text \<open>
  The condition \<open>this.grid[row] && this.grid[row][c] === emoji\<close> of the four loops of
  \<open>wouldCreateMatch\<close>.  Reading outside the array gives \<open>undefined\<close>, which is not
  \<open>emoji\<close>: the argument is the content of a cell, a string or \<open>null\<close>.
\<close>

definition sameAt :: "board \<Rightarrow> int \<Rightarrow> int \<Rightarrow> cell \<Rightarrow> bool" where
  "sameAt b r c e \<longleftrightarrow>
     0 \<le> r \<and> nat r < length (grid b) \<and> 0 \<le> c \<and> nat c < length (grid b ! nat r) \<and>
     grid b ! nat r ! nat c = e"

text \<open>
  The loops towards the start of a line (\<open>c--\<close> while \<open>c >= 0\<close>) and towards its end
  (\<open>c++\<close> while \<open>c < this.size\<close>), each leaving at the first cell that differs.  As in the
  scan, the orientation says which coordinate moves.
\<close>

function countBack :: "board \<Rightarrow> orientation \<Rightarrow> int \<Rightarrow> int \<Rightarrow> cell \<Rightarrow> int \<Rightarrow> int" where
  "countBack b ori line i e n =
     (if i \<ge> 0 then
        (if sameAt b (row (posAt ori line i)) (col (posAt ori line i)) e
         then countBack b ori line (i - 1) e (n + 1) else n)
      else n)"
  by pat_completeness auto
termination
  by (relation "measure (\<lambda>(b, ori, line, i, e, n). nat (i + 1))") auto

declare countBack.simps [simp del]

function countForth :: "board \<Rightarrow> orientation \<Rightarrow> int \<Rightarrow> int \<Rightarrow> cell \<Rightarrow> int \<Rightarrow> int" where
  "countForth b ori line i e n =
     (if i < sizeB b then
        (if sameAt b (row (posAt ori line i)) (col (posAt ori line i)) e
         then countForth b ori line (i + 1) e (n + 1) else n)
      else n)"
  by pat_completeness auto
termination
  by (relation "measure (\<lambda>(b, ori, line, i, e, n). nat (sizeB b - i))") auto

declare countForth.simps [simp del]

definition wouldCreateMatch :: "board \<Rightarrow> int \<Rightarrow> int \<Rightarrow> cell \<Rightarrow> bool" where
  "wouldCreateMatch b r c e =
     (let horizontalCount =
            countForth b horizontal r (c + 1) e (countBack b horizontal r (c - 1) e 1)
      in if horizontalCount \<ge> 3 then True
         else
           let verticalCount =
                 countForth b vertical c (r + 1) e (countBack b vertical c (r - 1) e 1)
           in verticalCount \<ge> 3)"

definition hasMatches :: "board \<Rightarrow> bool" where
  "hasMatches b =
     list_ex (\<lambda>r. list_ex (\<lambda>c. wouldCreateMatch b r c (gridAt b r c)) [0..sizeB b - 1])
             [0..sizeB b - 1]"

datatype move = Move (pos1: position) (pos2: position)

text \<open>
  \<open>getPossibleMoves\<close> swaps on the board itself and swaps back, so the board is part of
  the state of its loops.  \<open>trySwap\<close> is the block the source has twice, for the right and
  for the down neighbour.
\<close>

definition trySwap :: "position \<Rightarrow> position \<Rightarrow> board \<times> move list \<Rightarrow> board \<times> move list" where
  "trySwap p1 p2 = (\<lambda>(b, found).
     let b1 = snd (swapEmojis b p1 p2);
         found' = (if hasMatches b1 then found @ [Move p1 p2] else found);
         b2 = snd (swapEmojis b1 p1 p2)
     in (b2, found'))"

definition tryCell :: "int \<Rightarrow> int \<Rightarrow> board \<times> move list \<Rightarrow> board \<times> move list" where
  "tryCell r c = (\<lambda>(b, found).
     let st1 = (if c < sizeB b - 1 then trySwap (Pos r c) (Pos r (c + 1)) (b, found)
                else (b, found))
     in if r < sizeB (fst st1) - 1 then trySwap (Pos r c) (Pos (r + 1) c) st1 else st1)"

definition getPossibleMoves :: "board \<Rightarrow> move list \<times> board" where
  "getPossibleMoves b =
     (let (b', found) =
            fold (\<lambda>r st. fold (\<lambda>c st. tryCell r c st) [0..sizeB b - 1] st)
                 [0..sizeB b - 1] (b, [])
      in (found, b'))"

definition getState :: "board \<Rightarrow> cell list list" where
  "getState b = map (\<lambda>r. map (\<lambda>x. x) r) (grid b)"

definition setState :: "board \<Rightarrow> cell list list \<Rightarrow> board" where
  "setState b state = b\<lparr>grid := map (\<lambda>r. map (\<lambda>x. x) r) state\<rparr>"

section \<open>GameBoard: removal, gravity, refill, special effects\<close>

text \<open>
  \<open>Math.random()\<close> is a source of numbers in \<open>[0, 1)\<close>, made explicit state: a draw takes
  the first number of the sequence and leaves the rest.  For a number \<open>x\<close> in \<open>[0, 1)\<close> the
  index \<open>\<lfloor>x * n\<rfloor>\<close> lies within a list of \<open>n\<close> elements.
\<close>

type_synonym rng = "nat \<Rightarrow> real"

definition random :: "rng \<Rightarrow> real \<times> rng" where
  "random g = (g 0, \<lambda>n. g (Suc n))"

definition removeEmojis :: "board \<Rightarrow> position list \<Rightarrow> board" where
  "removeEmojis b ps =
     fold (\<lambda>pos b. if isValidPosition b (row pos) (col pos)
                     then gridSet b (row pos) (col pos) None else b) ps b"

datatype movement = Movement (fromPos: position) (toPos: position) (emojiMoved: cell)

definition gravityColumn :: "int \<Rightarrow> board \<times> movement list \<Rightarrow> board \<times> movement list" where
  "gravityColumn c = (\<lambda>(b0, movements0).
     case fold (\<lambda>r (b, writePos, movements).
                  if gridAt b r c \<noteq> None then
                    (if r \<noteq> writePos
                     then (gridSet (gridSet b writePos c (gridAt b r c)) r c None,
                           writePos - 1,
                           movements @ [Movement (Pos r c) (Pos writePos c) (gridAt b r c)])
                     else (b, writePos - 1, movements))
                  else (b, writePos, movements))
               (rev [0..sizeB b0 - 1]) (b0, sizeB b0 - 1, movements0)
     of (b, writePos, movements) \<Rightarrow> (b, movements))"

definition applyGravity :: "board \<Rightarrow> movement list \<times> board" where
  "applyGravity b =
     (case fold gravityColumn [0..sizeB b - 1] (b, []) of (b', movements) \<Rightarrow> (movements, b'))"

datatype filled = Filled (rowF: int) (colF: int) (emojiF: emoji)

definition fillEmpty :: "board \<Rightarrow> rng \<Rightarrow> filled list \<times> board \<times> rng" where
  "fillEmpty b0 g0 =
     (case fold (\<lambda>c st. fold (\<lambda>r (b, g, newEmojis).
                   if gridAt b r c = None then
                     (case random g of (x, g') \<Rightarrow>
                        let newEmoji = emojis ! nat \<lfloor>x * real (length emojis)\<rfloor>
                        in (gridSet b r c (Some newEmoji), g', newEmojis @ [Filled r c newEmoji]))
                   else (b, g, newEmojis))
                 [0..sizeB b0 - 1] st)
              [0..sizeB b0 - 1] (b0, g0, [])
      of (b, g, newEmojis) \<Rightarrow> (newEmojis, b, g))"

definition getSpecialEmojiEffect ::
  "board \<Rightarrow> rng \<Rightarrow> int \<Rightarrow> int \<Rightarrow> specialType \<Rightarrow> position list \<times> rng" where
  "getSpecialEmojiEffect b g r c t =
     (case t of
        striped \<Rightarrow>
          (case random g of (x, g') \<Rightarrow>
             if x < 0.5 then (map (\<lambda>c'. Pos r c') [0..sizeB b - 1], g')
             else (map (\<lambda>r'. Pos r' c) [0..sizeB b - 1], g'))
      | bomb \<Rightarrow>
          (concat (map (\<lambda>r'. concat (map (\<lambda>c'.
             if isValidPosition b r' c' then [Pos r' c'] else []) [c - 1..c + 1])) [r - 1..r + 1]), g)
      | rainbow \<Rightarrow>
          (let availableEmojis =
                 filter (\<lambda>e. list_ex (\<lambda>r'. list_ex (\<lambda>c'. gridAt b r' c' = Some e)
                                        [0..sizeB b - 1]) [0..sizeB b - 1]) emojis
           in if length availableEmojis > 0 then
                (case random g of (x, g') \<Rightarrow>
                   let targetEmoji = availableEmojis ! nat \<lfloor>x * real (length availableEmojis)\<rfloor>
                   in (concat (map (\<lambda>r'. concat (map (\<lambda>c'.
                         if gridAt b r' c' = Some targetEmoji then [Pos r' c'] else [])
                         [0..sizeB b - 1])) [0..sizeB b - 1]), g'))
              else ([], g)))"

section \<open>MatchDetector: activating a special tile\<close>

text \<open>
  \<open>processSpecialEmoji\<close> calls itself for every special tile among the affected
  positions, the origin excepted, and nothing bounds the depth of these calls.  The model
  takes the depth allowed as its first argument: \<open>None\<close> says that the calls went deeper.
  A call that returns does so for some depth; a call that returns \<open>None\<close> for every depth
  never returns.  \<open>chainReactions\<close> is the \<open>for\<close> loop over the affected positions.
\<close>

fun processSpecialEmoji ::
      "nat \<Rightarrow> board \<Rightarrow> rng \<Rightarrow> int \<Rightarrow> int \<Rightarrow> (position list \<times> rng) option"
  and chainReactions ::
      "nat \<Rightarrow> board \<Rightarrow> rng \<Rightarrow> int \<Rightarrow> int \<Rightarrow> position list \<Rightarrow> (position list \<times> rng) option"
where
  "processSpecialEmoji 0 b g r c = None"
| "processSpecialEmoji (Suc depth) b g r c =
     (case getSpecialType (getEmoji b r c) of
        None \<Rightarrow> Some ([], g)
      | Some specialType \<Rightarrow>
          (case getSpecialEmojiEffect b g r c specialType of (affectedPositions, g1) \<Rightarrow>
             (case chainReactions depth b g1 r c affectedPositions of
                None \<Rightarrow> None
              | Some (chain, g2) \<Rightarrow> Some (affectedPositions @ chain, g2))))"
| "chainReactions depth b g r c [] = Some ([], g)"
| "chainReactions depth b g r c (pos # rest) =
     (if isSpecialEmoji (getEmoji b (row pos) (col pos)) \<and> (row pos \<noteq> r \<or> col pos \<noteq> c)
      then
        (case processSpecialEmoji depth b g (row pos) (col pos) of
           None \<Rightarrow> None
         | Some (chainPositions, g1) \<Rightarrow>
             (case chainReactions depth b g1 r c rest of
                None \<Rightarrow> None
              | Some (chain, g2) \<Rightarrow> Some (chainPositions @ chain, g2)))
      else chainReactions depth b g r c rest)"

section \<open>EmojiCrushGame\<close>

text \<open>
  The fields of the game object that the swap, the cascade, the undo and the end-of-game
  check read or write.  The statistics, the timer handle, the power-up counters and the
  calls to the user interface and to local storage are left out: none of them is read by
  the operations modelled here.  \<open>rng\<close> is the state of \<open>Math.random\<close>.
\<close>

datatype gameState = menu | playing | paused | gameOver | levelComplete

datatype gameMode = normal | timed | endless

datatype historyEntry =
  HistoryEntry (boardState: "cell list list") (pos1H: position) (pos2H: position)
               (scoreH: int) (movesH: int) (comboMultiplierH: int)

record game =
  gameState :: gameState
  score :: int
  level :: int
  moves :: int
  goal :: int
  selectedTile :: "position option"
  isProcessing :: bool
  moveHistory :: "historyEntry list"
  gameMode :: gameMode
  timeLeft :: int
  highScore :: int
  board :: board
  matchDetector :: detector
  rng :: rng

definition saveMove :: "game \<Rightarrow> position \<Rightarrow> position \<Rightarrow> game" where
  "saveMove s p1 p2 =
     (let snapshot = getState (board s);
          history = moveHistory s @
            [HistoryEntry snapshot p1 p2 (score s) (moves s + 1)
               (comboMultiplier (matchDetector s))]
      in s\<lparr>moveHistory := (if length history > 5 then tl history else history)\<rparr>)"

definition undoLastMove :: "game \<Rightarrow> bool \<times> game" where
  "undoLastMove s =
     (if length (moveHistory s) = 0 then (False, s)
      else
        let lastMove = last (moveHistory s)
        in (True,
            s\<lparr>moveHistory := butlast (moveHistory s),
              board := setState (board s) (boardState lastMove),
              score := scoreH lastMove,
              moves := movesH lastMove,
              matchDetector := (matchDetector s)\<lparr>comboMultiplier := comboMultiplierH lastMove\<rparr>\<rparr>))"

definition completeLevel :: "game \<Rightarrow> game" where
  "completeLevel s =
     (let moveBonus = moves s * 50;
          timeBonus = timeLeft s * 10;
          totalBonus = moveBonus + timeBonus;
          s1 = s\<lparr>gameState := levelComplete, score := score s + totalBonus\<rparr>
      in if score s1 > highScore s1 then s1\<lparr>highScore := score s1\<rparr> else s1)"

definition endGame :: "game \<Rightarrow> game" where
  "endGame s =
     (let s1 = s\<lparr>gameState := gameOver\<rparr>
      in if score s1 > highScore s1 then s1\<lparr>highScore := score s1\<rparr> else s1)"

definition hasValidMoves :: "game \<Rightarrow> bool \<times> game" where
  "hasValidMoves s =
     (case getPossibleMoves (board s) of (found, b') \<Rightarrow> (length found > 0, s\<lparr>board := b'\<rparr>))"

definition checkGameEnd :: "game \<Rightarrow> game" where
  "checkGameEnd s =
     (if score s \<ge> goal s then completeLevel s
      else if moves s \<le> 0 then
        (case hasValidMoves s of (valid, s1) \<Rightarrow>
           if \<not> valid then endGame s1
           else if timeLeft s1 \<le> 0 \<and> gameMode s1 = timed then endGame s1
           else s1)
      else if timeLeft s \<le> 0 \<and> gameMode s = timed then endGame s
      else s)"

text \<open>
  One pass of the \<open>while (true)\<close> loop of \<open>processCascadingMatches\<close> after a non-empty
  scan: the multiplier, the special tiles, the score of the step, the removal, the new
  special tiles, gravity and refill.  It returns the new state and the score of the step.
\<close>

definition cascadeStep :: "game \<Rightarrow> match list \<Rightarrow> game \<times> int" where
  "cascadeStep s allMatches =
     (let d = updateComboMultiplier (matchDetector s) True;
          created = createSpecialEmojis allMatches;
          data = calculateScore d allMatches created;
          allPositions = getAllMatchPositions allMatches;
          b1 = removeEmojis (board s) allPositions;
          b2 = fold (\<lambda>sp b. createSpecialEmoji b (row (position sp)) (col (position sp)) (typeS sp))
                 created b1;
          b3 = snd (applyGravity b2)
      in case fillEmpty b3 (rng s) of (newEmojis, b4, g) \<Rightarrow>
           (s\<lparr>board := b4, matchDetector := d, rng := g\<rparr>, totalScore data))"

text \<open>
  The loop itself.  Whether it ends depends on the refills, so the result is an option:
  \<open>None\<close> is the loop that never leaves.
\<close>

partial_function (option) cascadeLoop :: "game \<Rightarrow> int \<Rightarrow> int \<Rightarrow> (game \<times> int \<times> int) option" where
  "cascadeLoop s cascadeCount acc =
     (let matches = findMatches (board s);
          s1 = s\<lparr>matchDetector := (matchDetector s)\<lparr>lastMatches := matches\<rparr>\<rparr>;
          shapedMatches = findShapedMatches (lastMatches (matchDetector s1));
          allMatches = matches @ shapedMatches
      in if length allMatches = 0 then Some (s1, cascadeCount, acc)
         else (case cascadeStep s1 allMatches of (s2, stepScore) \<Rightarrow>
                 cascadeLoop s2 (cascadeCount + 1) (acc + stepScore)))"

declare cascadeLoop.simps [code]

definition processCascadingMatches :: "game \<Rightarrow> (game \<times> int \<times> int) option" where
  "processCascadingMatches s =
     (case cascadeLoop s 0 0 of
        None \<Rightarrow> None
      | Some (s1, cascadeCount, acc) \<Rightarrow>
          Some (s1\<lparr>score := score s1 + acc,
                   matchDetector := updateComboMultiplier (matchDetector s1) False\<rparr>,
                cascadeCount, acc))"

definition attemptSwap :: "game \<Rightarrow> position \<Rightarrow> position \<Rightarrow> (bool \<times> game) option" where
  "attemptSwap s p1 p2 =
     (if moves s \<le> 0 then Some (False, s)
      else
        let b1 = snd (swapEmojis (board s) p1 p2);
            matches = findMatches b1;
            d1 = (matchDetector s)\<lparr>lastMatches := matches\<rparr>;
            shapedMatches = findShapedMatches (lastMatches d1);
            allMatches = matches @ shapedMatches
        in if length allMatches = 0
           then Some (False, s\<lparr>board := snd (swapEmojis b1 p1 p2), matchDetector := d1\<rparr>)
           else
             let s1 = saveMove (s\<lparr>board := b1, matchDetector := d1\<rparr>) p1 p2;
                 s2 = s1\<lparr>moves := moves s1 - 1, selectedTile := None, isProcessing := True\<rparr>
             in case processCascadingMatches s2 of
                  None \<Rightarrow> None
                | Some (s3, cascadeCount, acc) \<Rightarrow>
                    Some (True, checkGameEnd (s3\<lparr>isProcessing := False\<rparr>)))"

section \<open>Runs, listed positions and overlap\<close>

text \<open>
  The row or column a linear match lies in, the indices where its run starts and stops,
  and the cells of the run, from the fields of the match object.  (The values given for a
  shaped match are never used.)
\<close>

definition oriOf :: "match \<Rightarrow> orientation" where
  "oriOf m = (if isVertical m then vertical else horizontal)"

fun lineOf :: "match \<Rightarrow> int" where
  "lineOf (Horizontal e ps len r sc ec) = r"
| "lineOf (Vertical e ps len c sr er) = c"
| "lineOf (Shaped t e ps x h v) = row x"

fun startOf :: "match \<Rightarrow> int" where
  "startOf (Horizontal e ps len r sc ec) = sc"
| "startOf (Vertical e ps len c sr er) = sr"
| "startOf (Shaped t e ps x h v) = col x"

fun stopOf :: "match \<Rightarrow> int" where
  "stopOf (Horizontal e ps len r sc ec) = ec"
| "stopOf (Vertical e ps len c sr er) = er"
| "stopOf (Shaped t e ps x h v) = col x"

definition runCells :: "orientation \<Rightarrow> int \<Rightarrow> int \<Rightarrow> int \<Rightarrow> position list" where
  "runCells ori line start len = map (posAt ori line) [start..start + len - 1]"

definition cellsOf :: "match \<Rightarrow> position list" where
  "cellsOf m = runCells (oriOf m) (lineOf m) (startOf m) (lengthM m)"

text \<open>
  A maximal run, in the words of the specification: at least three consecutive cells of
  one line of the board that hold the same value, which is a tile value and not a special
  one, with no cell of that value next to the run at either end.
\<close>

definition maximalRun :: "board \<Rightarrow> match \<Rightarrow> bool" where
  "maximalRun b m \<longleftrightarrow>
     \<not> isShaped m \<and> 3 \<le> lengthM m \<and> stopOf m = startOf m + lengthM m - 1 \<and>
     0 \<le> lineOf m \<and> lineOf m < sizeB b \<and> 0 \<le> startOf m \<and> stopOf m < sizeB b \<and>
     emoji m \<noteq> [] \<and> \<not> isSpecialEmoji (Some (emoji m)) \<and>
     (\<forall>i \<in> {startOf m..stopOf m}. emojiAt b (oriOf m) (lineOf m) i = Some (emoji m)) \<and>
     emojiAt b (oriOf m) (lineOf m) (startOf m - 1) \<noteq> Some (emoji m) \<and>
     emojiAt b (oriOf m) (lineOf m) (stopOf m + 1) \<noteq> Some (emoji m)"

text \<open>
  The positions listed in a match are cells of its run, at least one; a horizontal match
  lists the whole run, in order.
\<close>

definition positionsOK :: "match \<Rightarrow> bool" where
  "positionsOK m \<longleftrightarrow>
     positions m \<noteq> [] \<and> set (positions m) \<subseteq> set (cellsOf m) \<and>
     (isHorizontal m \<longrightarrow> positions m = cellsOf m)"

text \<open>No two matches of the same orientation in the list share a cell of their runs.\<close>

definition noOverlap :: "match list \<Rightarrow> bool" where
  "noOverlap ms \<longleftrightarrow>
     (\<forall>k < length ms. \<forall>j < k. oriOf (ms ! j) = oriOf (ms ! k)
        \<longrightarrow> set (cellsOf (ms ! j)) \<inter> set (cellsOf (ms ! k)) = {})"

section \<open>The invariant of the scan\<close>

text \<open>
  What holds each time the loop along a line is about to look at index \<open>i\<close>.  \<open>scanPre\<close>:
  the cell before \<open>i\<close> does not begin three equal matchable cells (it was looked at, or
  lies in a run that was reported).  \<open>scanInv\<close>, of the matches and the visited positions
  so far: every match describes a maximal run and lists cells of it; the matches of the
  orientation being scanned lie in earlier lines or end before \<open>i\<close>; during the
  horizontal scan all matches are horizontal and all visited positions lie before the
  index; and no two matches of one orientation overlap.
\<close>

definition scanPre :: "board \<Rightarrow> orientation \<Rightarrow> int \<Rightarrow> int \<Rightarrow> bool" where
  "scanPre b ori line i \<longleftrightarrow>
     0 \<le> i \<and>
     (\<forall>e. e \<noteq> [] \<and> \<not> isSpecialEmoji (Some e) \<longrightarrow>
        \<not> (emojiAt b ori line (i - 1) = Some e \<and> emojiAt b ori line i = Some e \<and>
           emojiAt b ori line (i + 1) = Some e))"

definition scanInv ::
  "board \<Rightarrow> orientation \<Rightarrow> int \<Rightarrow> int \<Rightarrow> match list \<times> position list \<Rightarrow> bool" where
  "scanInv b ori line i acc \<longleftrightarrow>
     (case acc of (ms, vis) \<Rightarrow>
        (\<forall>m \<in> set ms. maximalRun b m \<and> positionsOK m) \<and>
        (\<forall>m \<in> set ms. oriOf m = ori \<longrightarrow> lineOf m < line \<or> (lineOf m = line \<and> stopOf m < i)) \<and>
        (ori = horizontal \<longrightarrow>
           (\<forall>m \<in> set ms. isHorizontal m) \<and>
           (\<forall>p \<in> set vis. row p < line \<or> (row p = line \<and> col p < i))) \<and>
        noOverlap ms)"

section \<open>Example boards\<close>

text \<open>
  Boards of the size the game plays on, used to evaluate the operations.  \<open>crossBoard\<close>
  is a board in the middle of a cascade: a row of four apples crosses a column of four
  apples, three gems lie in a row and five fires in another.  \<open>calmBoard\<close> has no three
  equal tiles in a line but three striped tiles in its last row.  \<open>bombsBoard\<close> has two
  bombs side by side, and \<open>chainBoard\<close> a bomb with a striped tile next to it.
\<close>

definition crossBoard :: board where
  "crossBoard = \<lparr>sizeB = 8, grid =
       [
        [Some banana, Some grapes, Some strawberry, Some apple, Some pizza, Some donut, Some star, Some banana],
        [Some strawberry, Some avocado, Some pizza, Some apple, Some star, Some banana, Some grapes, Some strawberry],
        [Some pizza, Some apple, Some apple, Some apple, Some apple, Some strawberry, Some avocado, Some pizza],
        [Some star, Some banana, Some grapes, Some apple, Some avocado, Some pizza, Some donut, Some star],
        [Some grapes, Some strawberry, Some avocado, Some pizza, Some donut, Some star, Some banana, Some grapes],
        [Some avocado, Some pizza, Some donut, Some star, Some banana, Some gem, Some gem, Some gem],
        [Some bolt, Some star, Some banana, Some grapes, Some strawberry, Some avocado, Some pizza, Some donut],
        [Some fire, Some fire, Some fire, Some fire, Some fire, Some donut, Some star, Some banana]]\<rparr>"

definition calmBoard :: board where
  "calmBoard = \<lparr>sizeB = 8, grid =
       [
        [Some banana, Some grapes, Some strawberry, Some avocado, Some pizza, Some donut, Some star, Some banana],
        [Some strawberry, Some avocado, Some pizza, Some donut, Some star, Some banana, Some grapes, Some strawberry],
        [Some pizza, Some donut, Some star, Some banana, Some grapes, Some strawberry, Some avocado, Some pizza],
        [Some star, Some banana, Some grapes, Some strawberry, Some avocado, Some pizza, Some donut, Some star],
        [Some grapes, Some strawberry, Some avocado, Some pizza, Some donut, Some star, Some banana, Some grapes],
        [Some avocado, Some pizza, Some donut, Some star, Some banana, Some grapes, Some strawberry, Some avocado],
        [Some donut, Some star, Some banana, Some grapes, Some strawberry, Some avocado, Some pizza, Some donut],
        [Some bolt, Some bolt, Some strawberry, Some bolt, Some pizza, Some donut, Some star, Some banana]]\<rparr>"

definition bombsBoard :: board where
  "bombsBoard = \<lparr>sizeB = 8, grid =
       [
        [Some blast, Some blast, Some strawberry, Some avocado, Some pizza, Some donut, Some star, Some banana],
        [Some strawberry, Some avocado, Some pizza, Some donut, Some star, Some banana, Some grapes, Some strawberry],
        [Some pizza, Some donut, Some star, Some banana, Some grapes, Some strawberry, Some avocado, Some pizza],
        [Some star, Some banana, Some grapes, Some strawberry, Some avocado, Some pizza, Some donut, Some star],
        [Some grapes, Some strawberry, Some avocado, Some pizza, Some donut, Some star, Some banana, Some grapes],
        [Some avocado, Some pizza, Some donut, Some star, Some banana, Some grapes, Some strawberry, Some avocado],
        [Some donut, Some star, Some banana, Some grapes, Some strawberry, Some avocado, Some pizza, Some donut],
        [Some banana, Some grapes, Some strawberry, Some avocado, Some pizza, Some donut, Some star, Some banana]]\<rparr>"

definition chainBoard :: board where
  "chainBoard = \<lparr>sizeB = 8, grid =
       [
        [Some banana, Some grapes, Some strawberry, Some avocado, Some pizza, Some donut, Some star, Some banana],
        [Some strawberry, Some avocado, Some pizza, Some donut, Some star, Some banana, Some grapes, Some strawberry],
        [Some pizza, Some donut, Some star, Some banana, Some grapes, Some strawberry, Some avocado, Some pizza],
        [Some star, Some banana, Some grapes, Some blast, Some avocado, Some pizza, Some donut, Some star],
        [Some grapes, Some strawberry, Some avocado, Some pizza, Some bolt, Some star, Some banana, Some grapes],
        [Some avocado, Some pizza, Some donut, Some star, Some banana, Some grapes, Some strawberry, Some avocado],
        [Some donut, Some star, Some banana, Some grapes, Some strawberry, Some avocado, Some pizza, Some donut],
        [Some banana, Some grapes, Some strawberry, Some avocado, Some pizza, Some donut, Some star, Some banana]]\<rparr>"

text \<open>The special tile one match gives rise to, as a list of none or one.\<close>

definition specialOf :: "match \<Rightarrow> special list" where
  "specialOf m =
     (case specialChoice m of
        (Some t, Some p) \<Rightarrow> [Special t p m]
      | _ \<Rightarrow> [])"


text \<open>
  The scoring table of the specification: the value of one tile of a match.  The table has
  no row for a linear match shorter than three.
\<close>

definition pointsPerTile :: "match \<Rightarrow> int" where
  "pointsPerTile m =
     (if isShaped m then 25
      else if lengthM m = 3 then 10
      else if lengthM m = 4 then 20
      else 50)"

text \<open>
  The tier rule for one match: a bomb at the recorded intersection of a shaped match; for a
  linear match that lists at least one position, a striped tile when its length is 4 and a
  rainbow tile when its length is 5 or more, at the element of index
  \<open>\<lfloor>positions.length / 2\<rfloor>\<close> of the positions it lists; nothing otherwise.
\<close>

definition tierRule :: "match \<Rightarrow> special list" where
  "tierRule m =
     (if isShaped m then [Special bomb (intersection m) m]
      else if positions m = [] then []
      else if lengthM m = 4
        then [Special striped (positions m ! (length (positions m) div 2)) m]
      else if 5 \<le> lengthM m
        then [Special rainbow (positions m ! (length (positions m) div 2)) m]
      else [])"

text \<open>The two crossing matches that the scan finds on \<open>crossBoard\<close>.\<close>

definition crossHorizontal :: match where
  "crossHorizontal = Horizontal apple [Pos 2 1, Pos 2 2, Pos 2 3, Pos 2 4] 4 2 1 4"

definition crossVertical :: match where
  "crossVertical = Vertical apple [Pos 0 3, Pos 1 3, Pos 3 3] 4 3 0 3"

text \<open>
  \<open>readyBoard\<close> has no three equal tiles in a line; exchanging the strawberry and the fire
  of its first row makes a row of three fires.  \<open>readyGame\<close> and \<open>calmGame\<close> are games under
  way on \<open>readyBoard\<close> and on \<open>calmBoard\<close>, with 12 moves left and a score of 120.  The three
  numbers that \<open>readyGame\<close> draws first refill the first row with a gem, an apple and a gem.
\<close>

definition readyBoard :: board where
  "readyBoard = \<lparr>sizeB = 8, grid =
       [
        [Some fire, Some fire, Some strawberry, Some fire, Some pizza, Some donut, Some star, Some banana],
        [Some strawberry, Some avocado, Some pizza, Some donut, Some star, Some banana, Some grapes, Some strawberry],
        [Some pizza, Some donut, Some star, Some banana, Some grapes, Some strawberry, Some avocado, Some pizza],
        [Some star, Some banana, Some grapes, Some strawberry, Some avocado, Some pizza, Some donut, Some star],
        [Some grapes, Some strawberry, Some avocado, Some pizza, Some donut, Some star, Some banana, Some grapes],
        [Some avocado, Some pizza, Some donut, Some star, Some banana, Some grapes, Some strawberry, Some avocado],
        [Some donut, Some star, Some banana, Some grapes, Some strawberry, Some avocado, Some pizza, Some donut],
        [Some banana, Some grapes, Some strawberry, Some avocado, Some pizza, Some donut, Some star, Some banana]]\<rparr>"

definition gameOn :: "board \<Rightarrow> game" where
  "gameOn b =
     \<lparr>gameState = playing, score = 120, level = 1, moves = 12, goal = 500,
      selectedTile = None, isProcessing = False, moveHistory = [], gameMode = normal,
      timeLeft = 0, highScore = 0, board = b,
      matchDetector = \<lparr>lastMatches = [], comboMultiplier = 1, maxComboMultiplier = 8\<rparr>,
      rng = (\<lambda>n. if n = 1 then 5 / 100 else 95 / 100)\<rparr>"

definition readyGame :: game where
  "readyGame = gameOn readyBoard"

definition calmGame :: game where
  "calmGame = gameOn calmBoard"

text \<open>
  The moves that the two blocks of \<open>getPossibleMoves\<close> record at one cell of a board: the
  swap with the right neighbour and the swap with the down neighbour, each when
  \<open>hasMatches\<close> holds after it.
\<close>

definition cellMoves :: "board \<Rightarrow> int \<Rightarrow> int \<Rightarrow> move list" where
  "cellMoves b r c =
     (if c < sizeB b - 1 \<and> hasMatches (snd (swapEmojis b (Pos r c) (Pos r (c + 1))))
      then [Move (Pos r c) (Pos r (c + 1))] else []) @
     (if r < sizeB b - 1 \<and> hasMatches (snd (swapEmojis b (Pos r c) (Pos (r + 1) c)))
      then [Move (Pos r c) (Pos (r + 1) c)] else [])"

section \<open>Grid access lemmas\<close>

lemma sizeB_gridSet [simp]: "sizeB (gridSet b r c v) = sizeB b"
  by (simp add: gridSet_def)

lemma wf_gridSet [simp]: "wf_board b \<Longrightarrow> wf_board (gridSet b r c v)"
proof -
  assume wf: "wf_board b"
  have "length r' = nat (sizeB b)"
    if "r' \<in> set ((grid b)[nat r := (grid b ! nat r)[nat c := v]])" for r'
  proof -
    from that set_update_subset_insert
    have "r' = (grid b ! nat r)[nat c := v] \<or> r' \<in> set (grid b)" by fastforce
    then show ?thesis
    proof
      assume r': "r' = (grid b ! nat r)[nat c := v]"
      show ?thesis
      proof (cases "nat r < length (grid b)")
        case True
        then have "grid b ! nat r \<in> set (grid b)" by simp
        with wf r' show ?thesis by (simp add: wf_board_def)
      next
        case False
        with that have "r' \<in> set (grid b)" by (simp add: list_update_beyond)
        with wf show ?thesis by (simp add: wf_board_def)
      qed
    next
      assume "r' \<in> set (grid b)"
      with wf show ?thesis by (simp add: wf_board_def)
    qed
  qed
  with wf show ?thesis by (simp add: wf_board_def gridSet_def)
qed

lemma isValidPosition_gridSet [simp]:
  "isValidPosition (gridSet b r c v) r' c' = isValidPosition b r' c'"
  by (simp add: isValidPosition_def)

lemma gridAt_gridSet:
  assumes "wf_board b" "isValidPosition b r c" "isValidPosition b r' c'"
  shows "gridAt (gridSet b r c v) r' c' = (if r' = r \<and> c' = c then v else gridAt b r' c')"
proof -
  from assms have len: "nat r < length (grid b)" "nat r' < length (grid b)"
    by (auto simp: wf_board_def isValidPosition_def)
  from assms len have row_len: "nat c < length (grid b ! nat r)"
    by (auto simp: wf_board_def isValidPosition_def)
  from assms have eqs: "nat r' = nat r \<longleftrightarrow> r' = r" "nat c' = nat c \<longleftrightarrow> c' = c"
    by (auto simp: isValidPosition_def)
  show ?thesis
    using len row_len eqs by (auto simp: gridAt_def gridSet_def nth_list_update)
qed

lemma gridSet_same:
  assumes "wf_board b" "isValidPosition b r c"
  shows "gridSet b r c (gridAt b r c) = b"
  by (simp add: gridSet_def gridAt_def)

lemma getEmoji_valid:
  "isValidPosition b r c \<Longrightarrow> getEmoji b r c = gridAt b r c"
  by (auto simp: getEmoji_def isValidPosition_def)

lemma getEmoji_invalid:
  "\<not> isValidPosition b r c \<Longrightarrow> getEmoji b r c = None"
  by (auto simp: getEmoji_def isValidPosition_def)

lemma getEmoji_gridSet:
  assumes "wf_board b" "isValidPosition b r c"
  shows "getEmoji (gridSet b r c v) r' c' = (if r' = r \<and> c' = c then v else getEmoji b r' c')"
proof (cases "isValidPosition b r' c'")
  case True
  with assms show ?thesis by (simp add: getEmoji_valid gridAt_gridSet)
next
  case False
  with assms show ?thesis by (auto simp: getEmoji_invalid)
qed

lemma swapEmojis_invalid:
  "\<not> isValidPosition b (row p1) (col p1) \<or> \<not> isValidPosition b (row p2) (col p2)
   \<Longrightarrow> swapEmojis b p1 p2 = (False, b)"
  by (simp add: swapEmojis_def)

lemma swapEmojis_valid:
  "isValidPosition b (row p1) (col p1) \<Longrightarrow> isValidPosition b (row p2) (col p2) \<Longrightarrow>
   swapEmojis b p1 p2 =
     (True, gridSet (gridSet b (row p1) (col p1) (gridAt b (row p2) (col p2)))
                    (row p2) (col p2) (gridAt b (row p1) (col p1)))"
  by (simp add: swapEmojis_def Let_def)

lemma sizeB_swapEmojis [simp]: "sizeB (snd (swapEmojis b p1 p2)) = sizeB b"
  by (simp add: swapEmojis_def Let_def)

lemma wf_swapEmojis [simp]: "wf_board b \<Longrightarrow> wf_board (snd (swapEmojis b p1 p2))"
  by (simp add: swapEmojis_def Let_def)

lemma getEmoji_swapEmojis:
  assumes "wf_board b" "isValidPosition b (row p1) (col p1)" "isValidPosition b (row p2) (col p2)"
  shows "getEmoji (snd (swapEmojis b p1 p2)) r c =
           (if r = row p2 \<and> c = col p2 then getEmoji b (row p1) (col p1)
            else if r = row p1 \<and> c = col p1 then getEmoji b (row p2) (col p2)
            else getEmoji b r c)"
  using assms by (simp add: swapEmojis_valid getEmoji_gridSet getEmoji_valid gridAt_gridSet)

text \<open>Two boards of the same valid shape that agree on every cell are the same board.\<close>

lemma board_eqI:
  assumes "wf_board a" "wf_board b" "sizeB a = sizeB b" "board.more a = board.more b"
    and cells: "\<And>r c. isValidPosition a r c \<Longrightarrow> gridAt a r c = gridAt b r c"
  shows "a = b"
proof -
  have len: "length (grid a) = length (grid b)"
    using assms by (simp add: wf_board_def)
  have "grid a ! i = grid b ! i" if i: "i < length (grid a)" for i
  proof (rule nth_equalityI)
    from i len assms show l: "length (grid a ! i) = length (grid b ! i)"
      by (simp add: wf_board_def)
    fix j assume j: "j < length (grid a ! i)"
    from i j assms have "isValidPosition a (int i) (int j)"
      by (auto simp: wf_board_def isValidPosition_def)
    from cells [OF this] show "grid a ! i ! j = grid b ! i ! j"
      by (simp add: gridAt_def)
  qed
  with len have "grid a = grid b" by (simp add: nth_equalityI)
  with assms show ?thesis by simp
qed

lemma swapEmojis_twice:
  assumes wf: "wf_board b"
  shows "snd (swapEmojis (snd (swapEmojis b p1 p2)) p1 p2) = b"
proof (cases "isValidPosition b (row p1) (col p1) \<and> isValidPosition b (row p2) (col p2)")
  case False
  then show ?thesis by (auto simp: swapEmojis_invalid)
next
  case True
  let ?b1 = "snd (swapEmojis b p1 p2)"
  let ?b2 = "snd (swapEmojis ?b1 p1 p2)"
  have v1: "isValidPosition ?b1 (row p1) (col p1)" "isValidPosition ?b1 (row p2) (col p2)"
    using True by (simp_all add: isValidPosition_def)
  show ?thesis
  proof (rule board_eqI)
    show "wf_board ?b2" "wf_board b" using wf by simp_all
    show "sizeB ?b2 = sizeB b" by simp
    show "board.more ?b2 = board.more b"
      by (simp add: swapEmojis_def Let_def gridSet_def)
    fix r c assume "isValidPosition ?b2 r c"
    then have v: "isValidPosition b r c" "isValidPosition ?b1 r c" "isValidPosition ?b2 r c"
      by (simp_all add: isValidPosition_def)
    have "getEmoji ?b2 r c = getEmoji b r c"
      using wf True v1
      by (simp add: getEmoji_swapEmojis [of ?b1] getEmoji_swapEmojis [of b])
    with v show "gridAt ?b2 r c = gridAt b r c" by (simp add: getEmoji_valid)
  qed
qed

section \<open>The match scan: loops and invariant\<close>

lemma countRun_props:
  "countRun b ori line e l c = (ml, cur) \<Longrightarrow>
     c \<le> cur \<and> ml = l + (cur - c) \<and>
     (\<forall>i. c \<le> i \<and> i < cur \<longrightarrow> emojiAt b ori line i = Some e) \<and>
     \<not> (cur < sizeB b \<and> emojiAt b ori line cur = Some e) \<and>
     (c \<le> sizeB b \<longrightarrow> cur \<le> sizeB b)"
proof (induction b ori line e l c arbitrary: ml cur rule: countRun.induct)
  case (1 b ori line e l c)
  show ?case
  proof (cases "c < sizeB b \<and> emojiAt b ori line c = Some e")
    case True
    with 1(2) have "countRun b ori line e (l + 1) (c + 1) = (ml, cur)"
      by (subst (asm) countRun.simps) simp
    from 1(1) [OF True this] have ih:
      "c + 1 \<le> cur" "ml = l + 1 + (cur - (c + 1))"
      "\<forall>i. c + 1 \<le> i \<and> i < cur \<longrightarrow> emojiAt b ori line i = Some e"
      "\<not> (cur < sizeB b \<and> emojiAt b ori line cur = Some e)"
      "c + 1 \<le> sizeB b \<longrightarrow> cur \<le> sizeB b"
      by simp_all
    have "emojiAt b ori line i = Some e" if "c \<le> i" "i < cur" for i
    proof (cases "i = c")
      case True
      with \<open>c < sizeB b \<and> emojiAt b ori line c = Some e\<close> show ?thesis by simp
    next
      case False
      with that ih(3) show ?thesis by simp
    qed
    with ih True show ?thesis by auto
  next
    case False
    with 1(2) have "ml = l \<and> cur = c"
      by (subst (asm) countRun.simps) auto
    with False show ?thesis by auto
  qed
qed

lemma inj_posAt: "posAt ori line i = posAt ori line' j \<longleftrightarrow> line = line' \<and> i = j"
  by (cases ori) auto

lemma fold_collect:
  assumes "distinct xs"
  shows "fold (\<lambda>c (ps, vis).
             if posAt ori line c \<in> set vis then (ps, vis)
             else (ps @ [posAt ori line c], vis @ [posAt ori line c])) xs (ps0, vis0)
         = (ps0 @ filter (\<lambda>p. p \<notin> set vis0) (map (posAt ori line) xs),
            vis0 @ filter (\<lambda>p. p \<notin> set vis0) (map (posAt ori line) xs))"
  using assms
proof (induction xs arbitrary: ps0 vis0)
  case Nil
  then show ?case by simp
next
  case (Cons x xs)
  have notin: "\<forall>y \<in> set xs. posAt ori line y \<noteq> posAt ori line x"
    using Cons.prems by (auto simp: inj_posAt)
  show ?case
  proof (cases "posAt ori line x \<in> set vis0")
    case True
    with Cons show ?thesis by simp
  next
    case False
    have "filter (\<lambda>p. p \<notin> set (vis0 @ [posAt ori line x])) (map (posAt ori line) xs)
          = filter (\<lambda>p. p \<notin> set vis0) (map (posAt ori line) xs)"
      by (rule filter_cong) (use notin in auto)
    with False Cons show ?thesis by simp
  qed
qed

lemma collect_eq:
  "collect ori line start len vis =
     (filter (\<lambda>p. p \<notin> set vis) (runCells ori line start len),
      vis @ filter (\<lambda>p. p \<notin> set vis) (runCells ori line start len))"
  using fold_collect [of "[start..start + len - 1]" ori line "[]" vis]
  by (simp add: collect_def runCells_def)

lemma set_runCells:
  "set (runCells ori line start len) = {posAt ori line i | i. start \<le> i \<and> i \<le> start + len - 1}"
  by (auto simp: runCells_def)

lemma fold_upto_invariant:
  assumes "P a s" and "a \<le> b + 1"
    and step: "\<And>i s. a \<le> i \<Longrightarrow> i \<le> b \<Longrightarrow> P i s \<Longrightarrow> P (i + 1) (f i s)"
  shows "P (b + 1) (fold f [a..b] s)"
proof -
  have "P (b + 1) (fold f [k..b] s)" if "P k s" "a \<le> k" "k \<le> b + 1" for k s
    using that
  proof (induction "nat (b + 1 - k)" arbitrary: k s)
    case 0
    then have "k = b + 1" by simp
    with 0 show ?case by simp
  next
    case (Suc n)
    then have le: "k \<le> b" by simp
    from Suc(2) have n: "n = nat (b + 1 - (k + 1))" by simp
    have "P (k + 1) (f k s)"
      using step [of k s] le Suc.prems by simp
    from Suc(1) [OF n this] le Suc.prems
    have "P (b + 1) (fold f [k + 1..b] (f k s))" by simp
    with le show ?case by (simp add: upto_rec1 [of k b])
  qed
  from this [of a s] assms(1,2) show ?thesis by simp
qed

lemma oriOf_simps [simp]:
  "oriOf (Horizontal e ps len r sc ec) = horizontal"
  "oriOf (Vertical e ps len c sr er) = vertical"
  by (simp_all add: oriOf_def)

lemma mkMatch_simps [simp]:
  "oriOf (mkMatch ori e ps len line i) = ori"
  "lineOf (mkMatch ori e ps len line i) = line"
  "startOf (mkMatch ori e ps len line i) = i"
  "stopOf (mkMatch ori e ps len line i) = i + len - 1"
  "lengthM (mkMatch ori e ps len line i) = len"
  "emoji (mkMatch ori e ps len line i) = e"
  "positions (mkMatch ori e ps len line i) = ps"
  "\<not> isShaped (mkMatch ori e ps len line i)"
  "isHorizontal (mkMatch ori e ps len line i) \<longleftrightarrow> ori = horizontal"
  "isVertical (mkMatch ori e ps len line i) \<longleftrightarrow> ori = vertical"
  by (cases ori; simp add: oriOf_def)+

lemma emojiAt_outside:
  "i < 0 \<or> sizeB b \<le> i \<Longrightarrow> emojiAt b ori line i = None"
  by (cases ori) (auto simp: emojiAt_def getEmoji_def)

lemma scanInv_weaken:
  "scanInv b ori line i acc \<Longrightarrow> i \<le> i' \<Longrightarrow> scanInv b ori line i' acc"
  unfolding scanInv_def by (cases acc) (simp, fastforce)

lemma noOverlap_append:
  assumes "noOverlap ms"
    and "\<forall>m' \<in> set ms. oriOf m' = oriOf m \<longrightarrow> set (cellsOf m') \<inter> set (cellsOf m) = {}"
  shows "noOverlap (ms @ [m])"
  unfolding noOverlap_def
proof (intro allI impI)
  fix k j assume k: "k < length (ms @ [m])" and j: "j < k"
    and o: "oriOf ((ms @ [m]) ! j) = oriOf ((ms @ [m]) ! k)"
  show "set (cellsOf ((ms @ [m]) ! j)) \<inter> set (cellsOf ((ms @ [m]) ! k)) = {}"
  proof (cases "k < length ms")
    case True
    with j o assms(1) show ?thesis by (simp add: noOverlap_def nth_append)
  next
    case False
    with k have keq: "k = length ms" by simp
    with j have "ms ! j \<in> set ms" by simp
    with assms(2) o keq j show ?thesis by (simp add: nth_append)
  qed
qed

lemma cells_disjoint_earlier:
  assumes m': "maximalRun b m'" "oriOf m' = ori"
    and earlier: "lineOf m' < line \<or> (lineOf m' = line \<and> stopOf m' < i)"
  shows "set (cellsOf m') \<inter> set (runCells ori line i len) = {}"
proof -
  from m' have stop: "stopOf m' = startOf m' + lengthM m' - 1" by (simp add: maximalRun_def)
  show ?thesis
    using earlier stop m'(2)
    by (auto simp: cellsOf_def set_runCells inj_posAt)
qed

lemma lineStep_inv:
  assumes pre: "scanPre b ori line i" and inv: "scanInv b ori line i acc"
    and i: "i < sizeB b - 2" and line: "0 \<le> line" "line < sizeB b"
    and step: "lineStep b ori line i acc = (i', acc')"
  shows "scanPre b ori line (i' + 1) \<and> scanInv b ori line (i' + 1) acc'"
proof -
  obtain ms vis where acc: "acc = (ms, vis)" by (cases acc)
  from pre have i0: "0 \<le> i" by (simp add: scanPre_def)
  have skip: ?thesis
    if same: "i' = i" "acc' = acc"
      and cell: "\<And>e. e \<noteq> [] \<Longrightarrow> \<not> isSpecialEmoji (Some e) \<Longrightarrow>
                 \<not> (emojiAt b ori line i = Some e \<and> emojiAt b ori line (i + 1) = Some e \<and>
                    emojiAt b ori line (i + 2) = Some e)"
  proof
    show "scanPre b ori line (i' + 1)"
      using i0 cell same by (auto simp: scanPre_def ac_simps)
    show "scanInv b ori line (i' + 1) acc'"
      using scanInv_weaken [OF inv, of "i + 1"] same by simp
  qed
  show ?thesis
  proof (cases "emojiAt b ori line i")
    case None
    with step acc have "i' = i" "acc' = acc" by (simp_all add: lineStep_def)
    then show ?thesis using None by (intro skip) simp_all
  next
    case (Some e)
    show ?thesis
    proof (cases "e = [] \<or> isSpecialEmoji (Some e)")
      case True
      with step acc Some have "i' = i" "acc' = acc" by (auto simp: lineStep_def)
      then show ?thesis using Some True by (intro skip) auto
    next
      case False
      obtain ml cur where cr: "countRun b ori line e 1 (i + 1) = (ml, cur)"
        by (cases "countRun b ori line e 1 (i + 1)")
      from countRun_props [OF cr] i
      have cur: "i + 1 \<le> cur" "ml = cur - i" "cur \<le> sizeB b"
        and run: "\<And>j. i + 1 \<le> j \<Longrightarrow> j < cur \<Longrightarrow> emojiAt b ori line j = Some e"
        and stop: "\<not> (cur < sizeB b \<and> emojiAt b ori line cur = Some e)"
        by auto
      from stop cur have after: "emojiAt b ori line cur \<noteq> Some e"
        using emojiAt_outside [of cur b ori line] by (cases "cur < sizeB b") auto
      show ?thesis
      proof (cases "3 \<le> ml")
        case short: False
        with step acc Some False cr have "i' = i" "acc' = acc" by (auto simp: lineStep_def)
        then show ?thesis
        proof (rule skip)
          fix e' assume "e' \<noteq> []" "\<not> isSpecialEmoji (Some e')"
          from short cur have "cur = i + 1 \<or> cur = i + 2" by auto
          with after Some
          show "\<not> (emojiAt b ori line i = Some e' \<and> emojiAt b ori line (i + 1) = Some e' \<and>
                    emojiAt b ori line (i + 2) = Some e')" by auto
        qed
      next
        case long: True
        let ?cells = "runCells ori line i ml"
        let ?ps = "filter (\<lambda>p. p \<notin> set vis) ?cells"
        let ?m = "mkMatch ori e ?ps ml line i"
        from step acc Some False cr long
        have res: "i' = cur - 1" "acc' = (if length ?ps > 0 then ms @ [?m] else ms, vis @ ?ps)"
          by (auto simp: lineStep_def collect_eq)
        have cellrun: "emojiAt b ori line j = Some e" if "i \<le> j" "j \<le> i + ml - 1" for j
          using that Some run cur by (cases "j = i") auto
        have pre': "scanPre b ori line cur"
          unfolding scanPre_def
        proof (intro conjI allI impI)
          show "0 \<le> cur" using i0 cur by simp
          fix e' assume "e' \<noteq> [] \<and> \<not> isSpecialEmoji (Some e')"
          have "emojiAt b ori line (cur - 1) = Some e"
            using cellrun [of "cur - 1"] cur long by simp
          with after
          show "\<not> (emojiAt b ori line (cur - 1) = Some e' \<and> emojiAt b ori line cur = Some e' \<and>
                    emojiAt b ori line (cur + 1) = Some e')" by auto
        qed
        have before: "emojiAt b ori line (i - 1) \<noteq> Some e"
          using pre False cellrun [of i] cellrun [of "i + 1"] long by (auto simp: scanPre_def)
        have mrun: "maximalRun b ?m"
          unfolding maximalRun_def
          using long line i0 cur False cellrun before after by auto
        have full: "?ps = ?cells" if "ori = horizontal"
        proof -
          from inv acc that
          have "\<forall>p \<in> set vis. row p < line \<or> (row p = line \<and> col p < i)"
            by (simp add: scanInv_def)
          with that have "\<forall>p \<in> set ?cells. p \<notin> set vis"
            by (auto simp: set_runCells)
          then show ?thesis by simp
        qed
        have pok: "positionsOK ?m" if "?ps \<noteq> []"
          using that full by (auto simp: positionsOK_def cellsOf_def)
        have inv0: "scanInv b ori line cur (ms, vis)"
          using scanInv_weaken [OF inv, of cur] cur acc by simp
        have inv1: "scanInv b ori line cur (ms @ [?m], vis @ ?ps)" if ne: "?ps \<noteq> []"
          unfolding scanInv_def
        proof (simp only: prod.case, intro conjI impI)
          from inv acc mrun pok [OF ne]
          show "\<forall>m \<in> set (ms @ [?m]). maximalRun b m \<and> positionsOK m"
            by (auto simp: scanInv_def)
          from inv0 cur
          show "\<forall>m \<in> set (ms @ [?m]). oriOf m = ori \<longrightarrow>
                  lineOf m < line \<or> (lineOf m = line \<and> stopOf m < cur)"
            by (auto simp: scanInv_def)
          show "noOverlap (ms @ [?m])"
          proof (rule noOverlap_append)
            from inv acc show "noOverlap ms" by (simp add: scanInv_def)
            show "\<forall>m' \<in> set ms. oriOf m' = oriOf ?m \<longrightarrow> set (cellsOf m') \<inter> set (cellsOf ?m) = {}"
            proof (intro ballI impI)
              fix m' assume m': "m' \<in> set ms" "oriOf m' = oriOf ?m"
              with inv acc have "maximalRun b m'" "oriOf m' = ori"
                "lineOf m' < line \<or> (lineOf m' = line \<and> stopOf m' < i)"
                by (auto simp: scanInv_def)
              from cells_disjoint_earlier [OF this]
              show "set (cellsOf m') \<inter> set (cellsOf ?m) = {}" by (simp add: cellsOf_def)
            qed
          qed
        next
          assume h: "ori = horizontal"
          with inv acc show "\<forall>m \<in> set (ms @ [?m]). isHorizontal m"
            by (auto simp: scanInv_def)
          from inv0 h have old: "\<forall>p \<in> set vis. row p < line \<or> (row p = line \<and> col p < cur)"
            by (simp add: scanInv_def)
          have "\<forall>p \<in> set ?ps. row p = line \<and> col p < cur"
            using h cur by (auto simp: set_runCells)
          with old show "\<forall>p \<in> set (vis @ ?ps). row p < line \<or> (row p = line \<and> col p < cur)"
            by auto
        qed
        show ?thesis
        proof (cases "?ps = []")
          case True
          with res inv0 pre' show ?thesis by simp
        next
          case False
          with res inv1 pre' show ?thesis by simp
        qed
      qed
    qed
  qed
qed

lemma scanInv_next_line:
  "scanInv b ori line i acc \<Longrightarrow> scanInv b ori (line + 1) 0 acc"
  unfolding scanInv_def by (cases acc) (simp, fastforce)

lemma scanLine_inv:
  "scanPre b ori line i \<Longrightarrow> scanInv b ori line i acc \<Longrightarrow> 0 \<le> line \<Longrightarrow> line < sizeB b \<Longrightarrow>
   scanInv b ori (line + 1) 0 (scanLine b ori line i acc)"
proof (induction b ori line i acc rule: scanLine.induct)
  case (1 b ori line i acc)
  show ?case
  proof (cases "i < sizeB b - 2")
    case True
    obtain i' acc' where st: "lineStep b ori line i acc = (i', acc')"
      by (cases "lineStep b ori line i acc")
    from lineStep_inv [OF "1.prems"(1,2) True "1.prems"(3,4) st]
    have "scanPre b ori line (i' + 1)" "scanInv b ori line (i' + 1) acc'" by simp_all
    from "1.IH" [OF True st [symmetric] this "1.prems"(3,4)] True st
    show ?thesis by (subst scanLine.simps) simp
  next
    case False
    with scanInv_next_line [OF "1.prems"(2)] show ?thesis
      by (subst scanLine.simps) simp
  qed
qed

lemma scanPre_start: "scanPre b ori line 0"
  by (simp add: scanPre_def emojiAt_outside)

lemma scan_lines_inv:
  assumes "scanInv b ori 0 0 acc" "0 \<le> sizeB b"
  shows "scanInv b ori (sizeB b) 0 (fold (\<lambda>line acc. scanLine b ori line 0 acc) [0..sizeB b - 1] acc)"
  using fold_upto_invariant
    [of "\<lambda>line acc. scanInv b ori line 0 acc" 0 acc "sizeB b - 1" "\<lambda>line acc. scanLine b ori line 0 acc"]
    assms scanLine_inv [OF scanPre_start]
  by simp

lemma scanInv_phase:
  "scanInv b horizontal line i acc \<Longrightarrow> scanInv b vertical 0 0 acc"
  unfolding scanInv_def by (cases acc) (auto simp: oriOf_def match.disc)

lemma scanInv_init: "scanInv b horizontal 0 0 ([], [])"
  by (simp add: scanInv_def noOverlap_def)

lemma findMatches_inv:
  "(\<forall>m \<in> set (findMatches b). maximalRun b m \<and> positionsOK m) \<and> noOverlap (findMatches b)"
proof (cases "0 \<le> sizeB b")
  case True
  let ?acc = "fold (\<lambda>row acc. scanLine b horizontal row 0 acc) [0..sizeB b - 1] ([], [])"
  let ?acc' = "fold (\<lambda>col acc. scanLine b vertical col 0 acc) [0..sizeB b - 1] ?acc"
  have "scanInv b horizontal (sizeB b) 0 ?acc"
    using scan_lines_inv [OF scanInv_init True] .
  then have "scanInv b vertical 0 0 ?acc" by (rule scanInv_phase)
  then have "scanInv b vertical (sizeB b) 0 ?acc'"
    using scan_lines_inv True by blast
  then show ?thesis
    by (cases ?acc') (simp add: findMatches_def Let_def scanInv_def)
next
  case False
  then have "[0..sizeB b - 1] = []" by simp
  then show ?thesis by (simp add: findMatches_def noOverlap_def)
qed

section \<open>Shaped matches, special tiles and score: lemmas\<close>

lemma removeDuplicates_props:
  "distinct u \<Longrightarrow> set u \<subseteq> set s \<Longrightarrow>
   set (removeDuplicates xs u s) = set u \<union> (set xs - set s) \<and>
   distinct (removeDuplicates xs u s)"
proof (induction xs arbitrary: u s)
  case Nil
  then show ?case by simp
next
  case (Cons pos rest)
  show ?case
  proof (cases "pos \<in> set s")
    case True
    with Cons.IH [OF Cons.prems] show ?thesis by auto
  next
    case False
    with Cons.prems have "distinct (u @ [pos])" "set (u @ [pos]) \<subseteq> set (s @ [pos])"
      by auto
    from Cons.IH [OF this] False show ?thesis by auto
  qed
qed

lemma removeDuplicates_set [simp]: "set (removeDuplicates xs [] []) = set xs"
  using removeDuplicates_props [of "[]" "[]" xs] by simp

lemma removeDuplicates_distinct [simp]: "distinct (removeDuplicates xs [] [])"
  using removeDuplicates_props [of "[]" "[]" xs] by simp

lemma createSpecialEmojis_fold:
  "fold (\<lambda>m created.
           case specialChoice m of
             (Some specialType, Some pos) \<Rightarrow> created @ [Special specialType pos m]
           | _ \<Rightarrow> created) ms acc = acc @ concat (map specialOf ms)"
  by (induction ms arbitrary: acc)
     (auto simp: specialOf_def split: prod.splits option.splits)

lemma createSpecialEmojis_concat:
  "createSpecialEmojis ms = concat (map specialOf ms)"
  by (simp add: createSpecialEmojis_def createSpecialEmojis_fold)

lemma fold_score:
  "fold (\<lambda>m acc. acc + matchScore m) ms a = a + sum_list (map matchScore ms)"
  by (induction ms arbitrary: a) auto

lemma findShapedMatches_set:
  "set (findShapedMatches ms) =
     {Shaped (getShapeType h v) (emoji h) (removeDuplicates (positions h @ positions v) [] [])
         (Pos (rowM h) (colM v)) h v | h v.
      h \<in> set ms \<and> isHorizontal h \<and> v \<in> set ms \<and> isVertical v \<and>
      startRow v \<le> rowM h \<and> rowM h \<le> endRow v \<and>
      startCol h \<le> colM v \<and> colM v \<le> endCol h \<and> emoji h = emoji v}"
  unfolding findShapedMatches_def Let_def by auto

lemma cascade_matches_length:
  "\<forall>m \<in> set (findMatches b @ findShapedMatches (findMatches b)). \<not> isShaped m \<longrightarrow> 3 \<le> lengthM m"
proof
  fix m assume "m \<in> set (findMatches b @ findShapedMatches (findMatches b))"
  then have "m \<in> set (findMatches b) \<or> m \<in> set (findShapedMatches (findMatches b))" by simp
  then show "\<not> isShaped m \<longrightarrow> 3 \<le> lengthM m"
  proof
    assume "m \<in> set (findMatches b)"
    with findMatches_inv [of b] show ?thesis by (simp add: maximalRun_def)
  next
    assume "m \<in> set (findShapedMatches (findMatches b))"
    then have "isShaped m" unfolding findShapedMatches_set by auto
    then show ?thesis by simp
  qed
qed

section \<open>Facts about the example boards\<close>

lemma wf_crossBoard: "wf_board crossBoard"
  by (simp add: wf_board_def crossBoard_def)

lemma findMatches_crossBoard:
  "findMatches crossBoard =
     [crossHorizontal,
      Horizontal gem [Pos 5 5, Pos 5 6, Pos 5 7] 3 5 5 7,
      Horizontal fire [Pos 7 0, Pos 7 1, Pos 7 2, Pos 7 3, Pos 7 4] 5 7 0 4,
      crossVertical]"
  by code_simp

lemma sum_matchScore:
  assumes "\<forall>m \<in> set ms. \<not> isShaped m \<longrightarrow> 3 \<le> lengthM m"
  shows "sum_list (map matchScore ms) =
         sum_list (map (\<lambda>m. int (length (positions m)) * pointsPerTile m) ms)"
  using assms by (induction ms) (auto simp: matchScore_def pointsPerTile_def)

lemma maximalRun_cells:
  assumes "maximalRun b m" "p \<in> set (cellsOf m)"
  shows "getEmoji b (row p) (col p) = Some (emoji m)"
    and "isValidPosition b (row p) (col p)"
proof -
  from assms(2) obtain i where i: "p = posAt (oriOf m) (lineOf m) i"
    "startOf m \<le> i" "i \<le> startOf m + lengthM m - 1"
    by (auto simp: cellsOf_def set_runCells)
  with assms(1) have "emojiAt b (oriOf m) (lineOf m) i = Some (emoji m)"
    by (simp add: maximalRun_def)
  with i(1) show "getEmoji b (row p) (col p) = Some (emoji m)" by (simp add: emojiAt_def)
  from assms(1) i show "isValidPosition b (row p) (col p)"
    by (cases "oriOf m") (auto simp: maximalRun_def isValidPosition_def)
qed

section \<open>Special tiles: where they are placed\<close>

lemma specialOf_tierRule: "specialOf = tierRule"
  by (rule ext)
     (auto simp: specialOf_def tierRule_def specialChoice_def getMiddlePosition_def Let_def)

lemma createSpecialEmojis_per_match: "createSpecialEmojis ms = concat (map tierRule ms)"
  by (simp add: createSpecialEmojis_concat specialOf_tierRule)

lemma horizontal_fields:
  "isHorizontal h \<Longrightarrow> oriOf h = horizontal \<and> lineOf h = rowM h \<and> startOf h = startCol h \<and> stopOf h = endCol h"
  by (cases h) simp_all

lemma vertical_fields:
  "isVertical v \<Longrightarrow> oriOf v = vertical \<and> lineOf v = colM v \<and> startOf v = startRow v \<and> stopOf v = endRow v"
  by (cases v) simp_all

lemma runCells_nth:
  "0 \<le> k \<Longrightarrow> k < len \<Longrightarrow> runCells ori line start len ! nat k = posAt ori line (start + k)"
  by (simp add: runCells_def nth_upto)

lemma length_runCells: "length (runCells ori line start len) = nat len"
  by (simp add: runCells_def)

lemma whole_run_middle:
  assumes "positions m = cellsOf m" "1 \<le> lengthM m"
  shows "positions m ! (length (positions m) div 2) =
         posAt (oriOf m) (lineOf m) (startOf m + lengthM m div 2)"
proof -
  have "length (positions m) div 2 = nat (lengthM m div 2)"
    using assms by (simp add: cellsOf_def length_runCells nat_div_distrib)
  with assms show ?thesis
    using runCells_nth [of "lengthM m div 2" "lengthM m" "oriOf m" "lineOf m" "startOf m"]
    by (simp add: cellsOf_def)
qed

lemma createSpecialEmojis_crossBoard:
  "createSpecialEmojis (findMatches crossBoard @ findShapedMatches (findMatches crossBoard)) =
     [Special striped (Pos 2 3) crossHorizontal,
      Special rainbow (Pos 7 2)
        (Horizontal fire [Pos 7 0, Pos 7 1, Pos 7 2, Pos 7 3, Pos 7 4] 5 7 0 4),
      Special striped (Pos 1 3) crossVertical,
      Special bomb (Pos 2 3)
        (Shaped T apple [Pos 2 1, Pos 2 2, Pos 2 3, Pos 2 4, Pos 0 3, Pos 1 3, Pos 3 3]
           (Pos 2 3) crossHorizontal crossVertical)]"
  by (simp add: findMatches_crossBoard findShapedMatches_def getShapeType_def
      crossHorizontal_def crossVertical_def createSpecialEmojis_def specialChoice_def
      getMiddlePosition_def tile_defs)

lemma findShapedMatches_crossBoard:
  "findShapedMatches (findMatches crossBoard) =
     [Shaped T apple [Pos 2 1, Pos 2 2, Pos 2 3, Pos 2 4, Pos 0 3, Pos 1 3, Pos 3 3]
        (Pos 2 3) crossHorizontal crossVertical]"
  by (simp add: findMatches_crossBoard findShapedMatches_def getShapeType_def
      crossHorizontal_def crossVertical_def tile_defs)

lemma shaped_intersection_listed:
  assumes h: "h \<in> set (findMatches b)" "isHorizontal h"
    and c: "startCol h \<le> c" "c \<le> endCol h"
  shows "Pos (rowM h) c \<in> set (positions h)"
proof -
  from h findMatches_inv [of b] have mr: "maximalRun b h" and ok: "positionsOK h" by simp_all
  from ok h(2) have "positions h = cellsOf h" by (simp add: positionsOK_def)
  moreover from mr have "stopOf h = startOf h + lengthM h - 1" by (simp add: maximalRun_def)
  ultimately show ?thesis
    using horizontal_fields [OF h(2)] c
    by (auto simp: cellsOf_def set_runCells intro!: exI [of _ c])
qed

lemma listed_position_valid:
  assumes "m \<in> set (findMatches b)" "p \<in> set (positions m)"
  shows "isValidPosition b (row p) (col p)"
proof -
  from assms findMatches_inv [of b] have "maximalRun b m" "p \<in> set (cellsOf m)"
    by (auto simp: positionsOK_def)
  then show ?thesis by (rule maximalRun_cells(2))
qed

lemma getEmoji_createSpecialEmoji:
  assumes "wf_board b" "isValidPosition b r c"
  shows "getEmoji (createSpecialEmoji b r c t) r c = map_of specialEmojis t"
  using assms by (simp add: createSpecialEmoji_def getEmoji_gridSet)

section \<open>Activation of special tiles: lemmas\<close>

text \<open>
  The depth allowed only bounds the calls: a call that returns within some depth returns
  the same with any greater depth.
\<close>

lemma chain_deeper:
  assumes step: "\<And>g r c res. processSpecialEmoji d b g r c = Some res
                   \<Longrightarrow> processSpecialEmoji (Suc d) b g r c = Some res"
  shows "chainReactions d b g r c ps = Some res \<Longrightarrow> chainReactions (Suc d) b g r c ps = Some res"
proof (induction ps arbitrary: g res)
  case Nil
  then show ?case by simp
next
  case (Cons pos rest)
  show ?case
  proof (cases "isSpecialEmoji (getEmoji b (row pos) (col pos)) \<and> (row pos \<noteq> r \<or> col pos \<noteq> c)")
    case True
    with Cons.prems obtain cp g1 ch g2
      where p: "processSpecialEmoji d b g (row pos) (col pos) = Some (cp, g1)"
        and ch: "chainReactions d b g1 r c rest = Some (ch, g2)"
        and res: "res = (cp @ ch, g2)"
      by (auto split: option.splits)
    from step [OF p] Cons.IH [OF ch] True res show ?thesis by simp
  next
    case False
    with Cons.prems have "chainReactions d b g r c rest = Some res" by auto
    from Cons.IH [OF this] False show ?thesis by auto
  qed
qed

lemma process_deeper:
  "processSpecialEmoji d b g r c = Some res \<Longrightarrow> processSpecialEmoji (Suc d) b g r c = Some res"
proof (induction d arbitrary: g r c res)
  case 0
  then show ?case by simp
next
  case (Suc d)
  show ?case
  proof (cases "getSpecialType (getEmoji b r c)")
    case None
    with Suc.prems show ?thesis by simp
  next
    case (Some t)
    obtain aff g1 where eff: "getSpecialEmojiEffect b g r c t = (aff, g1)"
      by (cases "getSpecialEmojiEffect b g r c t")
    with Suc.prems Some obtain ch g2
      where ch: "chainReactions d b g1 r c aff = Some (ch, g2)" and res: "res = (aff @ ch, g2)"
      by (auto split: option.splits)
    from chain_deeper [OF Suc.IH ch] have "chainReactions (Suc d) b g1 r c aff = Some (ch, g2)" .
    with Some eff res show ?thesis
      by (simp add: processSpecialEmoji.simps(2) [of "Suc d"])
  qed
qed

lemma wf_bombsBoard: "wf_board bombsBoard"
  by (simp add: wf_board_def bombsBoard_def)

lemma bombsBoard_cells:
  "getEmoji bombsBoard 0 0 = Some blast" "getEmoji bombsBoard 0 1 = Some blast"
  by (simp_all add: getEmoji_def gridAt_def bombsBoard_def)

lemma blast_is_bomb:
  "getSpecialType (Some blast) = Some bomb" "isSpecialEmoji (Some blast)"
  by (simp_all add: getSpecialType_def isSpecialEmoji_def specialEmojis_def tile_defs)

lemma bombsBoard_effects:
  "getSpecialEmojiEffect bombsBoard g 0 0 bomb = ([Pos 0 0, Pos 0 1, Pos 1 0, Pos 1 1], g)"
  "getSpecialEmojiEffect bombsBoard g 0 1 bomb =
     ([Pos 0 0, Pos 0 1, Pos 0 2, Pos 1 0, Pos 1 1, Pos 1 2], g)"
  by (simp_all add: getSpecialEmojiEffect_def isValidPosition_def bombsBoard_def upto_rec1)

lemma bombs_never_return:
  "processSpecialEmoji depth bombsBoard g 0 0 = None \<and>
   processSpecialEmoji depth bombsBoard g 0 1 = None"
proof (induction depth arbitrary: g)
  case 0
  show ?case by simp
next
  case (Suc depth)
  have "chainReactions depth bombsBoard g 0 0 [Pos 0 0, Pos 0 1, Pos 1 0, Pos 1 1] = None"
    using Suc [of g] by (simp add: bombsBoard_cells blast_is_bomb)
  moreover
  have "chainReactions depth bombsBoard g 0 1 [Pos 0 0, Pos 0 1, Pos 0 2, Pos 1 0, Pos 1 1, Pos 1 2]
        = None"
    using Suc [of g] by (simp add: bombsBoard_cells blast_is_bomb)
  ultimately show ?case
    by (simp add: bombsBoard_cells blast_is_bomb bombsBoard_effects)
qed

lemma chainBoard_activation:
  "map_option fst (processSpecialEmoji 2 chainBoard (\<lambda>n. 3 / 10) 3 3) =
     Some ([Pos 2 2, Pos 2 3, Pos 2 4, Pos 3 2, Pos 3 3, Pos 3 4, Pos 4 2, Pos 4 3, Pos 4 4] @
           [Pos 4 0, Pos 4 1, Pos 4 2, Pos 4 3, Pos 4 4, Pos 4 5, Pos 4 6, Pos 4 7])"
  by code_simp

section \<open>The game: rejected swaps, undo, possible moves\<close>

lemma findShapedMatches_Nil [simp]: "findShapedMatches [] = []"
  by (simp add: findShapedMatches_def)

lemma attemptSwap_no_moves:
  "moves s \<le> 0 \<Longrightarrow> attemptSwap s p1 p2 = Some (False, s)"
  by (simp add: attemptSwap_def)

lemma attemptSwap_no_match:
  assumes "wf_board (board s)" "0 < moves s"
    and "findMatches (snd (swapEmojis (board s) p1 p2)) @
         findShapedMatches (findMatches (snd (swapEmojis (board s) p1 p2))) = []"
  shows "attemptSwap s p1 p2 =
           Some (False, s\<lparr>matchDetector := (matchDetector s)\<lparr>lastMatches := []\<rparr>\<rparr>)"
  using assms by (simp add: attemptSwap_def Let_def swapEmojis_twice)

lemma wf_calmBoard: "wf_board calmBoard"
  by (simp add: wf_board_def calmBoard_def)

lemma calmBoard_swap_top: 
  "findMatches (snd (swapEmojis calmBoard (Pos 0 0) (Pos 0 1))) = []"
  by code_simp

lemma saveMove_history:
  "moveHistory (saveMove s p1 p2) =
     (if length (moveHistory s) \<ge> 5 then tl (moveHistory s) else moveHistory s) @
     [HistoryEntry (getState (board s)) p1 p2 (score s) (moves s + 1)
        (comboMultiplier (matchDetector s))]"
  by (cases "moveHistory s") (auto simp: saveMove_def Let_def)

lemma saveMove_cap:
  "length (moveHistory s) \<le> 5 \<Longrightarrow> length (moveHistory (saveMove s p1 p2)) \<le> 5"
  by (simp add: saveMove_history)

lemma getState_setState: "wf_board b \<Longrightarrow> grid (setState b' (getState b)) = grid b"
  by (simp add: getState_def setState_def)

lemma undoLastMove_restores_snapshot:
  assumes "moveHistory s = h @ [e]"
  shows "undoLastMove s =
           (True, s\<lparr>moveHistory := h, board := setState (board s) (boardState e),
                    score := scoreH e, moves := movesH e,
                    matchDetector := (matchDetector s)\<lparr>comboMultiplier := comboMultiplierH e\<rparr>\<rparr>)"
  using assms by (simp add: undoLastMove_def Let_def)

lemma saveMove_then_undo:
  "moves (snd (undoLastMove ((saveMove s p1 p2)\<lparr>moves := moves s - 1\<rparr>))) = moves s + 1"
  by (simp add: undoLastMove_def Let_def saveMove_history)

lemma trySwap_result:
  assumes "wf_board b"
  shows "trySwap p1 p2 (b, found) =
           (b, if hasMatches (snd (swapEmojis b p1 p2)) then found @ [Move p1 p2] else found)"
  using assms by (simp add: trySwap_def Let_def swapEmojis_twice)

lemma tryCell_result:
  assumes "wf_board b"
  shows "tryCell r c (b, found) = (b, found @ cellMoves b r c)"
  using assms by (simp add: tryCell_def Let_def trySwap_result cellMoves_def)

lemma fold_tryCell:
  assumes "wf_board b"
  shows "fold (\<lambda>c st. tryCell r c st) cs (b, found) = (b, found @ concat (map (cellMoves b r) cs))"
  using assms by (induction cs arbitrary: found) (simp_all add: tryCell_result)

lemma fold_rows:
  assumes "wf_board b"
  shows "fold (\<lambda>r st. fold (\<lambda>c st. tryCell r c st) cs st) rs (b, found) =
           (b, found @ concat (map (\<lambda>r. concat (map (cellMoves b r) cs)) rs))"
  using assms by (induction rs arbitrary: found) (simp_all add: fold_tryCell)

lemma getPossibleMoves_eq:
  assumes "wf_board b"
  shows "getPossibleMoves b =
           (concat (map (\<lambda>r. concat (map (cellMoves b r) [0..sizeB b - 1])) [0..sizeB b - 1]), b)"
  using assms by (simp add: getPossibleMoves_def fold_rows)

lemma calmBoard_bolts:
  "hasMatches (snd (swapEmojis calmBoard (Pos 7 2) (Pos 7 3)))"
  "findMatches (snd (swapEmojis calmBoard (Pos 7 2) (Pos 7 3))) = []"
  "getEmoji (snd (swapEmojis calmBoard (Pos 7 2) (Pos 7 3))) 7 0 = Some bolt"
  "getEmoji (snd (swapEmojis calmBoard (Pos 7 2) (Pos 7 3))) 7 1 = Some bolt"
  "getEmoji (snd (swapEmojis calmBoard (Pos 7 2) (Pos 7 3))) 7 2 = Some bolt"
  by code_simp+

section \<open>Chain reactions and the scan behind \<open>hasMatches\<close>: lemmas\<close>

lemma chain_includes:
  assumes sp: "isSpecialEmoji (getEmoji b (row pos) (col pos))"
    and other: "row pos \<noteq> r \<or> col pos \<noteq> c"
  shows "chainReactions d b g r c ps = Some (ch, g') \<Longrightarrow> pos \<in> set ps \<Longrightarrow>
         \<exists>g1 cps g2. processSpecialEmoji d b g1 (row pos) (col pos) = Some (cps, g2) \<and>
                     set cps \<subseteq> set ch"
proof (induction ps arbitrary: g ch g')
  case Nil
  then show ?case by simp
next
  case (Cons p rest)
  show ?case
  proof (cases "isSpecialEmoji (getEmoji b (row p) (col p)) \<and> (row p \<noteq> r \<or> col p \<noteq> c)")
    case True
    with Cons.prems(1) obtain cp g1 ch' g2
      where p: "processSpecialEmoji d b g (row p) (col p) = Some (cp, g1)"
        and rest: "chainReactions d b g1 r c rest = Some (ch', g2)"
        and ch: "ch = cp @ ch'"
      by (auto split: option.splits)
    show ?thesis
    proof (cases "pos = p")
      case True
      with p ch show ?thesis by auto
    next
      case False
      with Cons.prems(2) have "pos \<in> set rest" by simp
      from Cons.IH [OF rest this] ch show ?thesis by auto
    qed
  next
    case False
    with Cons.prems(1) have rest: "chainReactions d b g r c rest = Some (ch, g')" by auto
    from False sp other have "pos \<noteq> p" by auto
    with Cons.prems(2) have "pos \<in> set rest" by simp
    from Cons.IH [OF rest this] show ?thesis .
  qed
qed

lemma process_includes:
  assumes "processSpecialEmoji (Suc d) b g r c = Some (ps, g')"
    and "getSpecialType (getEmoji b r c) = Some t"
  shows "set (fst (getSpecialEmojiEffect b g r c t)) \<subseteq> set ps"
    and "\<forall>pos \<in> set (fst (getSpecialEmojiEffect b g r c t)).
           isSpecialEmoji (getEmoji b (row pos) (col pos)) \<and> (row pos \<noteq> r \<or> col pos \<noteq> c) \<longrightarrow>
           (\<exists>g1 cps g2. processSpecialEmoji d b g1 (row pos) (col pos) = Some (cps, g2) \<and>
                         set cps \<subseteq> set ps)"
proof -
  obtain aff g1 where eff: "getSpecialEmojiEffect b g r c t = (aff, g1)"
    by (cases "getSpecialEmojiEffect b g r c t")
  with assms obtain ch g2
    where ch: "chainReactions d b g1 r c aff = Some (ch, g2)" and ps: "ps = aff @ ch"
    by (auto split: option.splits)
  from eff ps show "set (fst (getSpecialEmojiEffect b g r c t)) \<subseteq> set ps" by simp
  show "\<forall>pos \<in> set (fst (getSpecialEmojiEffect b g r c t)).
           isSpecialEmoji (getEmoji b (row pos) (col pos)) \<and> (row pos \<noteq> r \<or> col pos \<noteq> c) \<longrightarrow>
           (\<exists>g1 cps g2. processSpecialEmoji d b g1 (row pos) (col pos) = Some (cps, g2) \<and>
                         set cps \<subseteq> set ps)"
  proof (intro ballI impI)
    fix pos assume "pos \<in> set (fst (getSpecialEmojiEffect b g r c t))"
      and sp: "isSpecialEmoji (getEmoji b (row pos) (col pos)) \<and> (row pos \<noteq> r \<or> col pos \<noteq> c)"
    with eff have "pos \<in> set aff" by simp
    from chain_includes [OF _ _ ch this] sp ps
    show "\<exists>g1 cps g2. processSpecialEmoji d b g1 (row pos) (col pos) = Some (cps, g2) \<and>
                       set cps \<subseteq> set ps" by auto
  qed
qed

lemma sameAt_valid:
  "wf_board b \<Longrightarrow> isValidPosition b r c \<Longrightarrow> sameAt b r c e \<longleftrightarrow> gridAt b r c = e"
  by (auto simp: sameAt_def gridAt_def wf_board_def isValidPosition_def)

lemma countBack_ge: "n \<le> countBack b ori line i e n"
proof (induction b ori line i e n rule: countBack.induct)
  case (1 b ori line i e n)
  then show ?case by (subst countBack.simps) auto
qed

lemma countForth_ge: "n \<le> countForth b ori line i e n"
proof (induction b ori line i e n rule: countForth.induct)
  case (1 b ori line i e n)
  then show ?case by (subst countForth.simps) auto
qed

lemma countForth_two:
  assumes "i + 1 < sizeB b"
    and "sameAt b (row (posAt ori line i)) (col (posAt ori line i)) e"
    and "sameAt b (row (posAt ori line (i + 1))) (col (posAt ori line (i + 1))) e"
  shows "n + 2 \<le> countForth b ori line i e n"
proof -
  have "countForth b ori line i e n = countForth b ori line (i + 1 + 1) e (n + 1 + 1)"
    using assms by (subst countForth.simps, simp, subst countForth.simps, simp)
  with countForth_ge [of "n + 1 + 1" b ori line "i + 1 + 1" e] show ?thesis by simp
qed

lemma wouldCreateMatch_run:
  assumes wf: "wf_board b" and line: "0 \<le> line" "line < sizeB b"
    and i: "0 \<le> i" "i + 2 < sizeB b"
    and cells: "\<forall>j \<in> {i..i + 2}. emojiAt b ori line j = Some e"
  shows "wouldCreateMatch b (row (posAt ori line i)) (col (posAt ori line i))
           (gridAt b (row (posAt ori line i)) (col (posAt ori line i)))"
proof -
  have valid: "isValidPosition b (row (posAt ori line j)) (col (posAt ori line j))"
    if "i \<le> j" "j \<le> i + 2" for j
    using that line i by (cases ori) (auto simp: isValidPosition_def)
  have at: "gridAt b (row (posAt ori line j)) (col (posAt ori line j)) = Some e"
    if "i \<le> j" "j \<le> i + 2" for j
  proof -
    from cells that have "emojiAt b ori line j = Some e" by simp
    with valid [OF that] show ?thesis by (simp add: emojiAt_def getEmoji_valid)
  qed
  have same: "sameAt b (row (posAt ori line j)) (col (posAt ori line j)) (Some e)"
    if "i \<le> j" "j \<le> i + 2" for j
    using sameAt_valid [OF wf valid [OF that]] at [OF that] by simp
  have forth: "n + 2 \<le> countForth b ori line (i + 1) (Some e) n" for n
    using countForth_two [of "i + 1" b ori line "Some e" n] same [of "i + 1"] same [of "i + 2"] i
    by (simp add: ac_simps)
  have "3 \<le> countForth b ori line (i + 1) (Some e) (countBack b ori line (i - 1) (Some e) 1)"
    using forth [of "countBack b ori line (i - 1) (Some e) 1"]
          countBack_ge [of 1 b ori line "i - 1" "Some e"] by simp
  with at [of i] show ?thesis
    by (cases ori) (auto simp: wouldCreateMatch_def Let_def)
qed

lemma findMatches_imp_hasMatches:
  assumes wf: "wf_board b" and ne: "findMatches b \<noteq> []"
  shows "hasMatches b"
proof -
  from ne obtain m where "m \<in> set (findMatches b)" by (cases "findMatches b") auto
  with findMatches_inv [of b] have mr: "maximalRun b m" by simp
  let ?p = "posAt (oriOf m) (lineOf m) (startOf m)"
  from mr have "wouldCreateMatch b (row ?p) (col ?p) (gridAt b (row ?p) (col ?p))"
    by (intro wouldCreateMatch_run [OF wf, of _ _ _ "emoji m"]) (auto simp: maximalRun_def)
  moreover from mr have "row ?p \<in> set [0..sizeB b - 1]" "col ?p \<in> set [0..sizeB b - 1]"
    by (cases "oriOf m"; auto simp: maximalRun_def)+
  ultimately have "\<exists>r \<in> set [0..sizeB b - 1]. \<exists>c \<in> set [0..sizeB b - 1].
      wouldCreateMatch b r c (gridAt b r c)"
    by (intro bexI)
  then show ?thesis
    by (simp only: hasMatches_def list_ex_iff)
qed

lemma in_concat_mapI: "x \<in> set xs \<Longrightarrow> y \<in> set (f x) \<Longrightarrow> y \<in> set (concat (map f xs))"
  by auto

lemma real_moves_are_offered:
  assumes wf: "wf_board b" and r: "0 \<le> r" "r < sizeB b" and c: "0 \<le> c" "c < sizeB b"
  shows "c < sizeB b - 1 \<Longrightarrow> findMatches (snd (swapEmojis b (Pos r c) (Pos r (c + 1)))) \<noteq> []
           \<Longrightarrow> Move (Pos r c) (Pos r (c + 1)) \<in> set (fst (getPossibleMoves b))"
    and "r < sizeB b - 1 \<Longrightarrow> findMatches (snd (swapEmojis b (Pos r c) (Pos (r + 1) c))) \<noteq> []
           \<Longrightarrow> Move (Pos r c) (Pos (r + 1) c) \<in> set (fst (getPossibleMoves b))"
proof -
  have rc: "r \<in> set [0..sizeB b - 1]" "c \<in> set [0..sizeB b - 1]" using r c by auto
  have mem: "mv \<in> set (fst (getPossibleMoves b))" if "mv \<in> set (cellMoves b r c)" for mv
  proof -
    from in_concat_mapI [of c "[0..sizeB b - 1]" mv "cellMoves b r", OF rc(2) that]
    have "mv \<in> set (concat (map (cellMoves b r) [0..sizeB b - 1]))" .
    from in_concat_mapI [of r "[0..sizeB b - 1]" mv
        "\<lambda>r. concat (map (cellMoves b r) [0..sizeB b - 1])", OF rc(1) this]
    show ?thesis by (simp only: getPossibleMoves_eq [OF wf] fst_conv)
  qed
  {
    assume "c < sizeB b - 1" "findMatches (snd (swapEmojis b (Pos r c) (Pos r (c + 1)))) \<noteq> []"
    with findMatches_imp_hasMatches [of "snd (swapEmojis b (Pos r c) (Pos r (c + 1)))"] wf
    have "Move (Pos r c) (Pos r (c + 1)) \<in> set (cellMoves b r c)"
      by (simp add: cellMoves_def)
    then show "Move (Pos r c) (Pos r (c + 1)) \<in> set (fst (getPossibleMoves b))"
      by (rule mem)
  }
  {
    assume "r < sizeB b - 1" "findMatches (snd (swapEmojis b (Pos r c) (Pos (r + 1) c))) \<noteq> []"
    with findMatches_imp_hasMatches [of "snd (swapEmojis b (Pos r c) (Pos (r + 1) c))"] wf
    have "Move (Pos r c) (Pos (r + 1) c) \<in> set (cellMoves b r c)"
      by (simp add: cellMoves_def)
    then show "Move (Pos r c) (Pos (r + 1) c) \<in> set (fst (getPossibleMoves b))"
      by (rule mem)
  }
qed

section \<open>An accepted swap and the undo after it\<close>

text \<open>
  The cascade and the end-of-game check leave the move count and the move history as the
  swap set them.  So after every accepted swap the undo finds the entry that this swap
  saved: it gives back the score of before the move, one move more than before the move,
  and the grid as it was after the swap.
\<close>

lemma cascadeStep_keeps:
  "cascadeStep s ms = (s', n) \<Longrightarrow> moves s' = moves s \<and> moveHistory s' = moveHistory s \<and> score s' = score s"
  by (auto simp: cascadeStep_def Let_def split: prod.splits)

lemma cascadeLoop_keeps:
  assumes "cascadeLoop s0 k0 a0 = Some y0"
  shows "moves (fst y0) = moves s0 \<and> moveHistory (fst y0) = moveHistory s0"
proof (rule cascadeLoop.raw_induct
    [where P = "\<lambda>s k a y. moves (fst y) = moves s \<and> moveHistory (fst y) = moveHistory s",
     OF _ assms])
  fix loop :: "game \<Rightarrow> int \<Rightarrow> int \<Rightarrow> (game \<times> int \<times> int) option"
  fix s :: game and k a :: int and y :: "game \<times> int \<times> int"
  assume ih: "\<And>s k a y. loop s k a = Some y \<Longrightarrow>
                moves (fst y) = moves s \<and> moveHistory (fst y) = moveHistory s"
  let ?all = "findMatches (board s) @ findShapedMatches (findMatches (board s))"
  let ?s1 = "s\<lparr>matchDetector := (matchDetector s)\<lparr>lastMatches := findMatches (board s)\<rparr>\<rparr>"
  assume body: "(let matches = findMatches (board s);
          s1 = s\<lparr>matchDetector := (matchDetector s)\<lparr>lastMatches := matches\<rparr>\<rparr>;
          shapedMatches = findShapedMatches (lastMatches (matchDetector s1));
          allMatches = matches @ shapedMatches
      in if length allMatches = 0 then Some (s1, k, a)
         else case cascadeStep s1 allMatches of
              (s2, stepScore) \<Rightarrow> loop s2 (k + 1) (a + stepScore)) = Some y"
  show "moves (fst y) = moves s \<and> moveHistory (fst y) = moveHistory s"
  proof (cases "length ?all = 0")
    case True
    with body show ?thesis by (auto simp: Let_def)
  next
    case False
    obtain s2 n where st: "cascadeStep ?s1 ?all = (s2, n)"
      by (cases "cascadeStep ?s1 ?all")
    with body False have "loop s2 (k + 1) (a + n) = Some y"
      by (simp add: Let_def)
    from ih [OF this] cascadeStep_keeps [OF st] show ?thesis by simp
  qed
qed

lemma checkGameEnd_keeps:
  "moves (checkGameEnd s) = moves s \<and> moveHistory (checkGameEnd s) = moveHistory s"
  by (auto simp: checkGameEnd_def completeLevel_def endGame_def hasValidMoves_def Let_def
           split: prod.splits)

lemma attemptSwap_accepted:
  assumes "attemptSwap s p1 p2 = Some (True, s')"
  shows "moves s' = moves s - 1"
    and "moveHistory s' =
           moveHistory (saveMove (s\<lparr>board := snd (swapEmojis (board s) p1 p2),
              matchDetector := (matchDetector s)\<lparr>lastMatches :=
                 findMatches (snd (swapEmojis (board s) p1 p2))\<rparr>\<rparr>) p1 p2)"
proof -
  let ?b1 = "snd (swapEmojis (board s) p1 p2)"
  let ?s0 = "s\<lparr>board := ?b1, matchDetector := (matchDetector s)\<lparr>lastMatches := findMatches ?b1\<rparr>\<rparr>"
  let ?s1 = "saveMove ?s0 p1 p2"
  let ?s2 = "?s1\<lparr>moves := moves ?s1 - 1, selectedTile := None, isProcessing := True\<rparr>"
  from assms obtain s3 k a where pc: "processCascadingMatches ?s2 = Some (s3, k, a)"
    and s': "s' = checkGameEnd (s3\<lparr>isProcessing := False\<rparr>)"
    by (auto simp: attemptSwap_def Let_def split: if_splits option.splits)
  from pc obtain s4 where cl: "cascadeLoop ?s2 0 0 = Some (s4, k, a)"
    and s3: "s3 = s4\<lparr>score := score s4 + a,
                      matchDetector := updateComboMultiplier (matchDetector s4) False\<rparr>"
    by (auto simp: processCascadingMatches_def split: option.splits)
  from cascadeLoop_keeps [OF cl] have "moves s4 = moves ?s2" "moveHistory s4 = moveHistory ?s2"
    by simp_all
  with s3 s' checkGameEnd_keeps [of "s3\<lparr>isProcessing := False\<rparr>"]
  show "moves s' = moves s - 1" and "moveHistory s' = moveHistory ?s1"
    by (simp_all add: saveMove_def Let_def)
qed

lemma undo_after_accepted_swap:
  assumes "attemptSwap s p1 p2 = Some (True, s')"
  shows "fst (undoLastMove s')"
    and "moves (snd (undoLastMove s')) = moves s + 1"
    and "score (snd (undoLastMove s')) = score s"
    and "grid (board (snd (undoLastMove s'))) = grid (snd (swapEmojis (board s) p1 p2))"
  using attemptSwap_accepted [OF assms]
  by (simp_all add: undoLastMove_def Let_def saveMove_history setState_def getState_def)

section \<open>The properties of the specification\<close>

text \<open>
  C1.  The score of one cascade step.  For matches in which every linear match has length
  at least 3, as in every cascade step (\<open>cascade_matches_length\<close>), the base score is the sum over the matches of
  the number of positions listed times the value of a tile (25 in a shaped match, 10, 20
  and 50 in a linear match of length 3, 4 and 5 or more), the bonus is 100 for each special
  tile created, and the total is base plus bonus, times the combo multiplier, floored.
  The witness is the example of the specification: a vertical match of length 4, one
  striped tile, multiplier 2, score 360.
\<close>

theorem calculateScore_formula:
  assumes "\<forall>m \<in> set ms. \<not> isShaped m \<longrightarrow> 3 \<le> lengthM m"
  shows "baseScore (calculateScore d ms created) =
           sum_list (map (\<lambda>m. int (length (positions m)) * pointsPerTile m) ms)
       \<and> specialBonus (calculateScore d ms created) = 100 * int (length created)
       \<and> totalScore (calculateScore d ms created) =
           \<lfloor>real_of_int ((baseScore (calculateScore d ms created) +
                            specialBonus (calculateScore d ms created)) * comboMultiplier d)\<rfloor>
       \<and> totalScore (calculateScore d ms created) =
           (sum_list (map (\<lambda>m. int (length (positions m)) * pointsPerTile m) ms)
              + 100 * int (length created)) * comboMultiplier d"
proof -
  let ?r = "calculateScore d ms created"
  have b: "baseScore ?r = sum_list (map (\<lambda>m. int (length (positions m)) * pointsPerTile m) ms)"
    using sum_matchScore [OF assms] by (simp add: calculateScore_def Let_def fold_score)
  have s: "specialBonus ?r = 100 * int (length created)"
    by (simp add: calculateScore_def Let_def)
  have "totalScore ?r = (baseScore ?r + specialBonus ?r) * comboMultiplier d"
    by (simp add: calculateScore_def Let_def flip: of_int_add of_int_mult)
  then have t: "totalScore ?r =
      \<lfloor>real_of_int ((baseScore ?r + specialBonus ?r) * comboMultiplier d)\<rfloor>"
    and t': "totalScore ?r = (baseScore ?r + specialBonus ?r) * comboMultiplier d"
    by (simp_all only: floor_of_int)
  from b s t t' show ?thesis by (simp only:)
qed

theorem calculateScore_formula_witness:
  "\<not> isShaped (Vertical apple [Pos 0 3, Pos 1 3, Pos 2 3, Pos 3 3] 4 3 0 3)
   \<and> 3 \<le> lengthM (Vertical apple [Pos 0 3, Pos 1 3, Pos 2 3, Pos 3 3] 4 3 0 3)
   \<and> createSpecialEmojis [Vertical apple [Pos 0 3, Pos 1 3, Pos 2 3, Pos 3 3] 4 3 0 3] =
       [Special striped (Pos 2 3) (Vertical apple [Pos 0 3, Pos 1 3, Pos 2 3, Pos 3 3] 4 3 0 3)]
   \<and> totalScore (calculateScore \<lparr>lastMatches = [], comboMultiplier = 2, maxComboMultiplier = 8\<rparr>
        [Vertical apple [Pos 0 3, Pos 1 3, Pos 2 3, Pos 3 3] 4 3 0 3]
        (createSpecialEmojis [Vertical apple [Pos 0 3, Pos 1 3, Pos 2 3, Pos 3 3] 4 3 0 3])) = 360"
proof -
  let ?m = "Vertical apple [Pos 0 3, Pos 1 3, Pos 2 3, Pos 3 3] 4 3 0 3"
  have h: "\<forall>m \<in> set [?m]. \<not> isShaped m \<longrightarrow> 3 \<le> lengthM m" by simp
  have c: "createSpecialEmojis [?m] = [Special striped (Pos 2 3) ?m]"
    by (simp add: createSpecialEmojis_def specialChoice_def getMiddlePosition_def)
  from calculateScore_formula [OF h, of "\<lparr>lastMatches = [], comboMultiplier = 2, maxComboMultiplier = 8\<rparr>"
      "createSpecialEmojis [?m]"] c
  show ?thesis by (simp add: pointsPerTile_def)
qed

text \<open>
  C2.  On a valid grid every match that \<open>findMatches\<close> returns describes a maximal run:
  its \<open>length\<close> is at least 3, the cells from its start to its end all hold its tile
  value, which is not special, and the cells before the start and after the end do not.
  The positions it lists are cells of that run (a horizontal match lists them all), so no
  special tile is among them, and two matches of the same orientation share no cell.
\<close>

theorem findMatches_only_maximal_runs:
  assumes "wf_board b"
  shows "(\<forall>m \<in> set (findMatches b).
            maximalRun b m \<and> positionsOK m \<and>
            (\<forall>p \<in> set (cellsOf m). getEmoji b (row p) (col p) = Some (emoji m)
                                  \<and> \<not> isSpecialEmoji (getEmoji b (row p) (col p))))
       \<and> noOverlap (findMatches b)"
proof (intro conjI ballI)
  fix m assume m: "m \<in> set (findMatches b)"
  with findMatches_inv [of b] show mr: "maximalRun b m" and "positionsOK m" by simp_all
  fix p assume p: "p \<in> set (cellsOf m)"
  from maximalRun_cells(1) [OF mr p] mr
  show "getEmoji b (row p) (col p) = Some (emoji m)"
    and "\<not> isSpecialEmoji (getEmoji b (row p) (col p))"
    by (simp_all add: maximalRun_def)
next
  from findMatches_inv [of b] show "noOverlap (findMatches b)" by simp
qed

theorem findMatches_only_maximal_runs_witness:
  "wf_board crossBoard
   \<and> crossVertical \<in> set (findMatches crossBoard)
   \<and> maximalRun crossBoard crossVertical \<and> positionsOK crossVertical
   \<and> cellsOf crossVertical = [Pos 0 3, Pos 1 3, Pos 2 3, Pos 3 3]
   \<and> getEmoji crossBoard 2 3 = Some apple \<and> \<not> isSpecialEmoji (getEmoji crossBoard 2 3)
   \<and> noOverlap (findMatches crossBoard)"
proof -
  have inn: "crossVertical \<in> set (findMatches crossBoard)"
    by (simp add: findMatches_crossBoard)
  have cells: "cellsOf crossVertical = [Pos 0 3, Pos 1 3, Pos 2 3, Pos 3 3]"
    by (simp add: cellsOf_def runCells_def crossVertical_def upto_rec1)
  then have p: "Pos 2 3 \<in> set (cellsOf crossVertical)" by simp
  from findMatches_only_maximal_runs [OF wf_crossBoard] inn
  have "maximalRun crossBoard crossVertical" "positionsOK crossVertical"
    "\<forall>p \<in> set (cellsOf crossVertical).
       getEmoji crossBoard (row p) (col p) = Some (emoji crossVertical)
       \<and> \<not> isSpecialEmoji (getEmoji crossBoard (row p) (col p))"
    "noOverlap (findMatches crossBoard)"
    by blast+
  with p inn cells wf_crossBoard show ?thesis
    by (auto simp: crossVertical_def)
qed

text \<open>
  C3, as amended.  \<open>createSpecialEmojis\<close> decides for each match on its own: a shaped
  match gives a bomb at its recorded intersection; a linear match of length 4 gives a
  striped tile and one of length 5 or more a rainbow tile, at the element of index
  \<open>\<lfloor>positions.length / 2\<rfloor>\<close> of the positions the match lists; a linear match of length
  3 gives nothing.  For a match of the scan that lists its whole run, as every horizontal
  match does, that element is the cell of index \<open>\<lfloor>length / 2\<rfloor>\<close> of the run.
\<close>

theorem createSpecialEmojis_tier_rule:
  assumes "wf_board b"
  shows "createSpecialEmojis ms = concat (map tierRule ms)
       \<and> (\<forall>m \<in> set (findMatches b). positions m = cellsOf m \<longrightarrow>
            positions m ! (length (positions m) div 2) =
              posAt (oriOf m) (lineOf m) (startOf m + lengthM m div 2))
       \<and> (\<forall>m \<in> set (findMatches b). isHorizontal m \<longrightarrow>
            positions m = cellsOf m \<and>
            positions m ! (length (positions m) div 2) =
              Pos (rowM m) (startCol m + lengthM m div 2))"
proof (intro conjI ballI impI)
  show "createSpecialEmojis ms = concat (map tierRule ms)"
    by (rule createSpecialEmojis_per_match)
next
  fix m assume m: "m \<in> set (findMatches b)" and whole: "positions m = cellsOf m"
  from m findMatches_inv [of b] have "3 \<le> lengthM m" by (simp add: maximalRun_def)
  with whole_run_middle [OF whole]
  show "positions m ! (length (positions m) div 2) =
          posAt (oriOf m) (lineOf m) (startOf m + lengthM m div 2)" by simp
next
  fix m assume m: "m \<in> set (findMatches b)" and h: "isHorizontal m"
  from m findMatches_inv [of b] have len: "3 \<le> lengthM m" and ok: "positionsOK m"
    by (simp_all add: maximalRun_def)
  from ok h show whole: "positions m = cellsOf m" by (simp add: positionsOK_def)
  from whole_run_middle [OF whole] len horizontal_fields [OF h]
  show "positions m ! (length (positions m) div 2) = Pos (rowM m) (startCol m + lengthM m div 2)"
    by simp
qed

theorem createSpecialEmojis_tier_rule_witness:
  "wf_board crossBoard
   \<and> crossHorizontal \<in> set (findMatches crossBoard) \<and> isHorizontal crossHorizontal
   \<and> positions crossHorizontal = cellsOf crossHorizontal
   \<and> positions crossHorizontal ! (length (positions crossHorizontal) div 2) = Pos 2 3
   \<and> createSpecialEmojis [crossHorizontal] = [Special striped (Pos 2 3) crossHorizontal]"
proof -
  have inn: "crossHorizontal \<in> set (findMatches crossBoard)"
    by (simp add: findMatches_crossBoard)
  have h: "isHorizontal crossHorizontal" by (simp add: crossHorizontal_def)
  from createSpecialEmojis_tier_rule [OF wf_crossBoard, of "[crossHorizontal]"] inn h
  have "createSpecialEmojis [crossHorizontal] = concat (map tierRule [crossHorizontal])"
    and "positions crossHorizontal = cellsOf crossHorizontal"
    and "positions crossHorizontal ! (length (positions crossHorizontal) div 2) =
           Pos (rowM crossHorizontal) (startCol crossHorizontal + lengthM crossHorizontal div 2)"
    by blast+
  with inn h wf_crossBoard show ?thesis
    by (simp add: tierRule_def) (simp add: crossHorizontal_def)
qed

text \<open>
  C3, as stated, fails for a vertical match whose run crosses a horizontal match: the
  crossed cell is missing from the positions it lists.  On \<open>crossBoard\<close> the column of
  four apples in rows 0 to 3 of column 3 lists rows 0, 1 and 3; the cell of index
  \<open>\<lfloor>4 / 2\<rfloor>\<close> of the run is row 2, and the striped tile is created at row 1.
\<close>

theorem striped_tile_beside_run_middle_counterexample:
  "crossVertical \<in> set (findMatches crossBoard)
   \<and> lengthM crossVertical = 4
   \<and> cellsOf crossVertical ! nat (lengthM crossVertical div 2) = Pos 2 3
   \<and> createSpecialEmojis [crossVertical] = [Special striped (Pos 1 3) crossVertical]
   \<and> createSpecialEmojis (findMatches crossBoard @ findShapedMatches (findMatches crossBoard)) ! 2
       = Special striped (Pos 1 3) crossVertical"
  by (simp add: createSpecialEmojis_crossBoard)
     (simp add: findMatches_crossBoard crossVertical_def cellsOf_def runCells_def upto_rec1
        createSpecialEmojis_def specialChoice_def getMiddlePosition_def)

text \<open>
  C4.  For every horizontal match \<open>h\<close> and vertical match \<open>v\<close> of \<open>lastMatches\<close> with the
  same tile value, the row of \<open>h\<close> within the rows of \<open>v\<close> and the column of \<open>v\<close> within
  the columns of \<open>h\<close>, \<open>findShapedMatches\<close> emits a shaped match made of \<open>h\<close> and \<open>v\<close>: its
  positions are those of \<open>h\<close> and of \<open>v\<close>, each once, its intersection is
  \<open>(h.row, v.col)\<close>, and its subtype is T when \<open>h.length + v.length - 1 \<ge> 5\<close> and L
  otherwise.
\<close>

theorem findShapedMatches_emits_intersecting_pairs:
  assumes "h \<in> set ms" "isHorizontal h" "v \<in> set ms" "isVertical v"
    and "emoji h = emoji v"
    and "startRow v \<le> rowM h" "rowM h \<le> endRow v"
    and "startCol h \<le> colM v" "colM v \<le> endCol h"
  shows "\<exists>s \<in> set (findShapedMatches ms).
           isShaped s \<and> horizontalMatch s = h \<and> verticalMatch s = v \<and> emoji s = emoji h \<and>
           set (positions s) = set (positions h) \<union> set (positions v) \<and>
           distinct (positions s) \<and>
           intersection s = Pos (rowM h) (colM v) \<and>
           subType s = (if lengthM h + lengthM v - 1 \<ge> 5 then T else L)"
proof -
  let ?s = "Shaped (getShapeType h v) (emoji h)
              (removeDuplicates (positions h @ positions v) [] []) (Pos (rowM h) (colM v)) h v"
  from assms have "?s \<in> set (findShapedMatches ms)"
    unfolding findShapedMatches_set by blast
  moreover have "isShaped ?s \<and> horizontalMatch ?s = h \<and> verticalMatch ?s = v \<and>
      emoji ?s = emoji h \<and>
      set (positions ?s) = set (positions h) \<union> set (positions v) \<and>
      distinct (positions ?s) \<and> intersection ?s = Pos (rowM h) (colM v) \<and>
      subType ?s = (if lengthM h + lengthM v - 1 \<ge> 5 then T else L)"
    by (simp add: getShapeType_def Let_def)
  ultimately show ?thesis by blast
qed

theorem findShapedMatches_emits_intersecting_pairs_witness:
  "crossHorizontal \<in> set (findMatches crossBoard) \<and> isHorizontal crossHorizontal
   \<and> crossVertical \<in> set (findMatches crossBoard) \<and> isVertical crossVertical
   \<and> emoji crossHorizontal = emoji crossVertical
   \<and> startRow crossVertical \<le> rowM crossHorizontal \<and> rowM crossHorizontal \<le> endRow crossVertical
   \<and> startCol crossHorizontal \<le> colM crossVertical \<and> colM crossVertical \<le> endCol crossHorizontal
   \<and> Shaped T apple [Pos 2 1, Pos 2 2, Pos 2 3, Pos 2 4, Pos 0 3, Pos 1 3, Pos 3 3]
        (Pos 2 3) crossHorizontal crossVertical \<in> set (findShapedMatches (findMatches crossBoard))
   \<and> (\<exists>s. s \<in> set (findShapedMatches (findMatches crossBoard))
          \<and> horizontalMatch s = crossHorizontal \<and> verticalMatch s = crossVertical
          \<and> intersection s = Pos 2 3 \<and> subType s = T
          \<and> set (positions s) = set (positions crossHorizontal) \<union> set (positions crossVertical))"
proof -
  have facts: "crossHorizontal \<in> set (findMatches crossBoard)" "isHorizontal crossHorizontal"
    "crossVertical \<in> set (findMatches crossBoard)" "isVertical crossVertical"
    "emoji crossHorizontal = emoji crossVertical"
    "startRow crossVertical \<le> rowM crossHorizontal" "rowM crossHorizontal \<le> endRow crossVertical"
    "startCol crossHorizontal \<le> colM crossVertical" "colM crossVertical \<le> endCol crossHorizontal"
    by (simp_all add: findMatches_crossBoard) (simp_all add: crossHorizontal_def crossVertical_def)
  from findShapedMatches_emits_intersecting_pairs [OF facts]
  obtain s where s: "s \<in> set (findShapedMatches (findMatches crossBoard))"
    "horizontalMatch s = crossHorizontal" "verticalMatch s = crossVertical"
    "set (positions s) = set (positions crossHorizontal) \<union> set (positions crossVertical)"
    "intersection s = Pos (rowM crossHorizontal) (colM crossVertical)"
    "subType s = (if lengthM crossHorizontal + lengthM crossVertical - 1 \<ge> 5 then T else L)"
    by blast
  from s(5,6) have "intersection s = Pos 2 3" "subType s = T"
    by (simp_all add: crossHorizontal_def crossVertical_def)
  with s(1-4) have ex: "\<exists>s. s \<in> set (findShapedMatches (findMatches crossBoard))
          \<and> horizontalMatch s = crossHorizontal \<and> verticalMatch s = crossVertical
          \<and> intersection s = Pos 2 3 \<and> subType s = T
          \<and> set (positions s) = set (positions crossHorizontal) \<union> set (positions crossVertical)"
    by blast
  have "Shaped T apple [Pos 2 1, Pos 2 2, Pos 2 3, Pos 2 4, Pos 0 3, Pos 1 3, Pos 3 3]
        (Pos 2 3) crossHorizontal crossVertical \<in> set (findShapedMatches (findMatches crossBoard))"
    by (simp add: findShapedMatches_crossBoard)
  with facts ex show ?thesis by blast
qed

text \<open>
  C5.  On a valid grid, when the move budget is zero (or less), or when the board after
  the tentative swap has no match, linear or shaped, \<open>attemptSwap\<close> returns false, and the
  grid, the move budget, the score and the move history are what they were.
\<close>

theorem attemptSwap_rejected_leaves_state:
  assumes "wf_board (board s)"
    and "moves s \<le> 0 \<or>
         findMatches (snd (swapEmojis (board s) p1 p2)) @
         findShapedMatches (findMatches (snd (swapEmojis (board s) p1 p2))) = []"
  shows "\<exists>s'. attemptSwap s p1 p2 = Some (False, s') \<and>
              board s' = board s \<and> moves s' = moves s \<and> score s' = score s \<and>
              moveHistory s' = moveHistory s"
proof (cases "moves s \<le> 0")
  case True
  then show ?thesis by (simp add: attemptSwap_no_moves)
next
  case False
  with assms attemptSwap_no_match [of s p1 p2] show ?thesis by simp
qed

theorem attemptSwap_rejected_leaves_state_witness:
  "wf_board (board calmGame)
   \<and> 0 < moves calmGame
   \<and> findMatches (snd (swapEmojis (board calmGame) (Pos 0 0) (Pos 0 1))) @
       findShapedMatches (findMatches (snd (swapEmojis (board calmGame) (Pos 0 0) (Pos 0 1)))) = []
   \<and> (\<exists>s'. attemptSwap calmGame (Pos 0 0) (Pos 0 1) = Some (False, s') \<and>
            board s' = calmBoard \<and> moves s' = 12 \<and> score s' = 120 \<and> moveHistory s' = [])
   \<and> moves (calmGame\<lparr>moves := 0\<rparr>) \<le> 0
   \<and> (\<exists>s'. attemptSwap (calmGame\<lparr>moves := 0\<rparr>) (Pos 7 6) (Pos 7 7) = Some (False, s') \<and>
            board s' = calmBoard \<and> moves s' = 0 \<and> score s' = 120 \<and> moveHistory s' = [])"
proof -
  have b: "board calmGame = calmBoard" "moves calmGame = 12" "score calmGame = 120"
    "moveHistory calmGame = []"
    by (simp_all add: calmGame_def gameOn_def)
  have none: "findMatches (snd (swapEmojis (board calmGame) (Pos 0 0) (Pos 0 1))) @
       findShapedMatches (findMatches (snd (swapEmojis (board calmGame) (Pos 0 0) (Pos 0 1)))) = []"
    by (simp add: b calmBoard_swap_top)
  from attemptSwap_rejected_leaves_state [of calmGame "Pos 0 0" "Pos 0 1"]
       attemptSwap_rejected_leaves_state [of "calmGame\<lparr>moves := 0\<rparr>" "Pos 7 6" "Pos 7 7"]
       none wf_calmBoard b
  show ?thesis by simp
qed

text \<open>
  C6.  On a valid grid, \<open>swapEmojis\<close> returns false and leaves the grid as it is when
  either position is out of bounds; otherwise it returns true and the two cells have
  exchanged their values, every other cell keeping its own; and swapping the same pair
  twice gives the original grid back.
\<close>

theorem swapEmojis_exchanges_and_is_involutive:
  assumes "wf_board b"
  shows "(\<not> isValidPosition b (row p1) (col p1) \<or> \<not> isValidPosition b (row p2) (col p2)
            \<longrightarrow> swapEmojis b p1 p2 = (False, b))
       \<and> (isValidPosition b (row p1) (col p1) \<and> isValidPosition b (row p2) (col p2)
            \<longrightarrow> fst (swapEmojis b p1 p2)
              \<and> getEmoji (snd (swapEmojis b p1 p2)) (row p1) (col p1) = getEmoji b (row p2) (col p2)
              \<and> getEmoji (snd (swapEmojis b p1 p2)) (row p2) (col p2) = getEmoji b (row p1) (col p1)
              \<and> (\<forall>r c. (r, c) \<noteq> (row p1, col p1) \<and> (r, c) \<noteq> (row p2, col p2)
                    \<longrightarrow> getEmoji (snd (swapEmojis b p1 p2)) r c = getEmoji b r c))
       \<and> snd (swapEmojis (snd (swapEmojis b p1 p2)) p1 p2) = b"
proof (intro conjI impI)
  assume "\<not> isValidPosition b (row p1) (col p1) \<or> \<not> isValidPosition b (row p2) (col p2)"
  then show "swapEmojis b p1 p2 = (False, b)" by (rule swapEmojis_invalid)
next
  assume v: "isValidPosition b (row p1) (col p1) \<and> isValidPosition b (row p2) (col p2)"
  then show "fst (swapEmojis b p1 p2)" by (simp add: swapEmojis_valid)
  from v assms show "getEmoji (snd (swapEmojis b p1 p2)) (row p1) (col p1) = getEmoji b (row p2) (col p2)"
    by (auto simp: getEmoji_swapEmojis)
  from v assms show "getEmoji (snd (swapEmojis b p1 p2)) (row p2) (col p2) = getEmoji b (row p1) (col p1)"
    by (simp add: getEmoji_swapEmojis)
  from v assms show "\<forall>r c. (r, c) \<noteq> (row p1, col p1) \<and> (r, c) \<noteq> (row p2, col p2)
                    \<longrightarrow> getEmoji (snd (swapEmojis b p1 p2)) r c = getEmoji b r c"
    by (simp add: getEmoji_swapEmojis)
next
  from assms show "snd (swapEmojis (snd (swapEmojis b p1 p2)) p1 p2) = b"
    by (rule swapEmojis_twice)
qed

theorem swapEmojis_exchanges_and_is_involutive_witness:
  "wf_board calmBoard
   \<and> swapEmojis calmBoard (Pos 0 0) (Pos 0 8) = (False, calmBoard)
   \<and> fst (swapEmojis calmBoard (Pos 7 2) (Pos 7 3))
   \<and> getEmoji (snd (swapEmojis calmBoard (Pos 7 2) (Pos 7 3))) 7 2 = Some bolt
   \<and> getEmoji (snd (swapEmojis calmBoard (Pos 7 2) (Pos 7 3))) 7 3 = Some strawberry
   \<and> snd (swapEmojis (snd (swapEmojis calmBoard (Pos 7 2) (Pos 7 3))) (Pos 7 2) (Pos 7 3))
       = calmBoard"
proof -
  have wf: "wf_board calmBoard" by (simp add: wf_board_def calmBoard_def)
  have v: "isValidPosition calmBoard 7 2" "isValidPosition calmBoard 7 3"
    "\<not> isValidPosition calmBoard 0 8"
    by (simp_all add: isValidPosition_def calmBoard_def)
  have g: "getEmoji calmBoard 7 2 = Some strawberry" "getEmoji calmBoard 7 3 = Some bolt"
    by (simp_all add: getEmoji_def gridAt_def calmBoard_def)
  from swapEmojis_exchanges_and_is_involutive [OF wf, of "Pos 0 0" "Pos 0 8"]
       swapEmojis_exchanges_and_is_involutive [OF wf, of "Pos 7 2" "Pos 7 3"] wf v g
  show ?thesis by simp
qed

text \<open>
  C7 at \<open>calmBoard\<close>, a board without a match whose last row begins striped, striped,
  strawberry, striped.  \<open>getPossibleMoves\<close> returns the swap of the strawberry with the
  striped tile to its right: after it three striped tiles are in a row, which
  \<open>hasMatches\<close> takes for a match.  The scan finds no match on that board, and
  \<open>attemptSwap\<close> rejects the move.
\<close>

theorem getPossibleMoves_counts_special_tiles:
  "findMatches calmBoard = []
   \<and> Move (Pos 7 2) (Pos 7 3) \<in> set (fst (getPossibleMoves calmBoard))
   \<and> getEmoji (snd (swapEmojis calmBoard (Pos 7 2) (Pos 7 3))) 7 0 = Some bolt
   \<and> getEmoji (snd (swapEmojis calmBoard (Pos 7 2) (Pos 7 3))) 7 1 = Some bolt
   \<and> getEmoji (snd (swapEmojis calmBoard (Pos 7 2) (Pos 7 3))) 7 2 = Some bolt
   \<and> isSpecialEmoji (Some bolt)
   \<and> findMatches (snd (swapEmojis calmBoard (Pos 7 2) (Pos 7 3))) = []
   \<and> map_option fst (attemptSwap calmGame (Pos 7 2) (Pos 7 3)) = Some False"
proof -
  have calm: "findMatches calmBoard = []" by code_simp
  have sz: "sizeB calmBoard = 8" by (simp add: calmBoard_def)
  have "Move (Pos 7 2) (Pos 7 3) \<in> set (cellMoves calmBoard 7 2)"
    using calmBoard_bolts(1) by (simp add: cellMoves_def sz)
  then have "\<exists>r \<in> {0..7}. \<exists>c \<in> {0..7}. Move (Pos 7 2) (Pos 7 3) \<in> set (cellMoves calmBoard r c)"
    by (intro bexI [of _ 7] bexI [of _ 2]) simp_all
  then have mem: "Move (Pos 7 2) (Pos 7 3) \<in> set (fst (getPossibleMoves calmBoard))"
    by (simp add: getPossibleMoves_eq [OF wf_calmBoard] sz)
  have sp: "isSpecialEmoji (Some bolt)"
    by (simp add: isSpecialEmoji_def specialEmojis_def)
  have "attemptSwap calmGame (Pos 7 2) (Pos 7 3) =
          Some (False, calmGame\<lparr>matchDetector := (matchDetector calmGame)\<lparr>lastMatches := []\<rparr>\<rparr>)"
    by (rule attemptSwap_no_match)
       (simp_all add: calmGame_def gameOn_def wf_calmBoard calmBoard_bolts(2))
  with calm mem sp calmBoard_bolts show ?thesis by simp
qed

theorem getPossibleMoves_counts_special_tiles_witness:
  "Move (Pos 7 2) (Pos 7 3) \<in> set (fst (getPossibleMoves calmBoard))
   \<and> findMatches (snd (swapEmojis calmBoard (Pos 7 2) (Pos 7 3))) = []"
  using getPossibleMoves_counts_special_tiles by blast

text \<open>
  C8 at \<open>readyGame\<close>, 12 moves left and a score of 120.  The swap of the strawberry and
  the fire of the first row is accepted: one move is spent and 60 points are won.  The
  undo that follows brings the score back to 120, but leaves 13 moves, one more than
  before the move, and the first row of the grid as it was after the swap, three
  fires in a row, not as it was before the move.  (\<open>undo_after_accepted_swap\<close> shows
  the same of every accepted swap; \<open>saveMove_cap\<close> is the bound of five entries.)
\<close>

theorem undo_after_swap_adds_a_move:
  "moves readyGame = 12
   \<and> grid (board readyGame) ! 0 =
       [Some fire, Some fire, Some strawberry, Some fire, Some pizza, Some donut, Some star,
        Some banana]
   \<and> map_option (\<lambda>(ok, s). (ok, moves s, score s, length (moveHistory s)))
        (attemptSwap readyGame (Pos 0 2) (Pos 0 3)) = Some (True, 11, 180, 1)
   \<and> map_option (\<lambda>(ok, s). (fst (undoLastMove s), moves (snd (undoLastMove s)),
                              score (snd (undoLastMove s)),
                              grid (board (snd (undoLastMove s))) ! 0))
        (attemptSwap readyGame (Pos 0 2) (Pos 0 3)) =
       Some (True, 13, 120,
             [Some fire, Some fire, Some fire, Some strawberry, Some pizza, Some donut, Some star,
              Some banana])"
  by code_simp

text \<open>
  C9.  A call of \<open>processSpecialEmoji\<close> that returns gives back the positions its own tile
  affects, and for every other special tile among them the positions that an activation of
  that tile returned: it calls itself for each, and nothing bounds the calls.  So there is
  a board on which the activation never returns: \<open>bombsBoard\<close>, a valid grid with two bombs
  side by side, each in the area the other clears.  Whatever depth of calls is allowed and
  whatever \<open>Math.random\<close> yields, the calls go deeper.  (The witness is \<open>chainBoard\<close>, where
  the bomb has one striped tile in its area: the activation returns the cells of the bomb
  followed by those of the striped tile.)
\<close>

theorem chain_reaction_never_returns:
  "(processSpecialEmoji (Suc d) b g r c = Some (ps, g') \<and>
    getSpecialType (getEmoji b r c) = Some t \<longrightarrow>
      set (fst (getSpecialEmojiEffect b g r c t)) \<subseteq> set ps \<and>
      (\<forall>pos \<in> set (fst (getSpecialEmojiEffect b g r c t)).
         isSpecialEmoji (getEmoji b (row pos) (col pos)) \<and> (row pos \<noteq> r \<or> col pos \<noteq> c) \<longrightarrow>
         (\<exists>g1 cps g2. processSpecialEmoji d b g1 (row pos) (col pos) = Some (cps, g2) \<and>
                       set cps \<subseteq> set ps)))
   \<and> wf_board bombsBoard
   \<and> getSpecialType (getEmoji bombsBoard 0 0) = Some bomb
   \<and> getSpecialType (getEmoji bombsBoard 0 1) = Some bomb
   \<and> Pos 0 1 \<in> set (fst (getSpecialEmojiEffect bombsBoard g 0 0 bomb))
   \<and> Pos 0 0 \<in> set (fst (getSpecialEmojiEffect bombsBoard g 0 1 bomb))
   \<and> (\<forall>depth g. processSpecialEmoji depth bombsBoard g 0 0 = None)
   \<and> (\<forall>depth g. processSpecialEmoji depth bombsBoard g 0 1 = None)"
proof -
  have "set (fst (getSpecialEmojiEffect b g r c t)) \<subseteq> set ps \<and>
      (\<forall>pos \<in> set (fst (getSpecialEmojiEffect b g r c t)).
         isSpecialEmoji (getEmoji b (row pos) (col pos)) \<and> (row pos \<noteq> r \<or> col pos \<noteq> c) \<longrightarrow>
         (\<exists>g1 cps g2. processSpecialEmoji d b g1 (row pos) (col pos) = Some (cps, g2) \<and>
                       set cps \<subseteq> set ps))"
    if "processSpecialEmoji (Suc d) b g r c = Some (ps, g')"
      and "getSpecialType (getEmoji b r c) = Some t"
    using process_includes [OF that] by blast
  moreover have "wf_board bombsBoard
   \<and> getSpecialType (getEmoji bombsBoard 0 0) = Some bomb
   \<and> getSpecialType (getEmoji bombsBoard 0 1) = Some bomb
   \<and> Pos 0 1 \<in> set (fst (getSpecialEmojiEffect bombsBoard g 0 0 bomb))
   \<and> Pos 0 0 \<in> set (fst (getSpecialEmojiEffect bombsBoard g 0 1 bomb))
   \<and> (\<forall>depth g. processSpecialEmoji depth bombsBoard g 0 0 = None)
   \<and> (\<forall>depth g. processSpecialEmoji depth bombsBoard g 0 1 = None)"
    using bombs_never_return wf_bombsBoard
    by (simp add: bombsBoard_cells blast_is_bomb bombsBoard_effects)
  ultimately show ?thesis by blast
qed

theorem chain_reaction_never_returns_witness:
  "wf_board bombsBoard
   \<and> processSpecialEmoji 1000 bombsBoard (\<lambda>n. 0) 0 0 = None
   \<and> processSpecialEmoji 1000 bombsBoard (\<lambda>n. 0) 0 1 = None
   \<and> getSpecialType (getEmoji chainBoard 3 3) = Some bomb
   \<and> Pos 4 4 \<in> set (fst (getSpecialEmojiEffect chainBoard (\<lambda>n. 3 / 10) 3 3 bomb))
   \<and> isSpecialEmoji (getEmoji chainBoard 4 4)
   \<and> map_option fst (processSpecialEmoji (Suc 1) chainBoard (\<lambda>n. 3 / 10) 3 3) =
       Some ([Pos 2 2, Pos 2 3, Pos 2 4, Pos 3 2, Pos 3 3, Pos 3 4, Pos 4 2, Pos 4 3, Pos 4 4] @
             [Pos 4 0, Pos 4 1, Pos 4 2, Pos 4 3, Pos 4 4, Pos 4 5, Pos 4 6, Pos 4 7])
   \<and> (\<exists>g1 cps g2. processSpecialEmoji 1 chainBoard g1 4 4 = Some (cps, g2) \<and>
         set cps \<subseteq> set ([Pos 2 2, Pos 2 3, Pos 2 4, Pos 3 2, Pos 3 3, Pos 3 4, Pos 4 2, Pos 4 3,
                           Pos 4 4] @
                          [Pos 4 0, Pos 4 1, Pos 4 2, Pos 4 3, Pos 4 4, Pos 4 5, Pos 4 6,
                           Pos 4 7]))"
proof -
  let ?g = "\<lambda>n::nat. 3 / 10 :: real"
  let ?ps = "[Pos 2 2, Pos 2 3, Pos 2 4, Pos 3 2, Pos 3 3, Pos 3 4, Pos 4 2, Pos 4 3, Pos 4 4] @
             [Pos 4 0, Pos 4 1, Pos 4 2, Pos 4 3, Pos 4 4, Pos 4 5, Pos 4 6, Pos 4 7]"
  have run: "map_option fst (processSpecialEmoji (Suc 1) chainBoard ?g 3 3) = Some ?ps"
    using chainBoard_activation by (simp add: numeral_2_eq_2)
  then obtain g' where ret: "processSpecialEmoji (Suc 1) chainBoard ?g 3 3 = Some (?ps, g')"
    by (cases "processSpecialEmoji (Suc 1) chainBoard ?g 3 3") auto
  have t: "getSpecialType (getEmoji chainBoard 3 3) = Some bomb"
    and sp: "isSpecialEmoji (getEmoji chainBoard 4 4)"
    by code_simp+
  have aff: "Pos 4 4 \<in> set (fst (getSpecialEmojiEffect chainBoard ?g 3 3 bomb))"
    by (simp add: getSpecialEmojiEffect_def isValidPosition_def chainBoard_def upto_rec1)
  note inst = chain_reaction_never_returns [of 1 chainBoard ?g 3 3 ?ps g' bomb]
  from inst ret t
  have "\<forall>pos \<in> set (fst (getSpecialEmojiEffect chainBoard ?g 3 3 bomb)).
         isSpecialEmoji (getEmoji chainBoard (row pos) (col pos)) \<and> (row pos \<noteq> 3 \<or> col pos \<noteq> 3) \<longrightarrow>
         (\<exists>g1 cps g2. processSpecialEmoji 1 chainBoard g1 (row pos) (col pos) = Some (cps, g2) \<and>
                       set cps \<subseteq> set ?ps)"
    by blast
  with aff sp
  have chain: "\<exists>g1 cps g2. processSpecialEmoji 1 chainBoard g1 4 4 = Some (cps, g2) \<and>
                       set cps \<subseteq> set ?ps"
    by fastforce
  from inst have "wf_board bombsBoard"
    "processSpecialEmoji 1000 bombsBoard (\<lambda>n. 0) 0 0 = None"
    "processSpecialEmoji 1000 bombsBoard (\<lambda>n. 0) 0 1 = None"
    by blast+
  with run t aff sp chain show ?thesis by blast
qed

text \<open>
  C10.  On a valid grid, every match of a cascade step (the matches of the scan and the
  shaped matches made of them) lists at least one position, and the position chosen for
  the special tile it creates (the recorded intersection of a shaped match, the element of
  index \<open>\<lfloor>positions.length / 2\<rfloor>\<close> of a linear one) is among the positions the match lists
  and within the board, so that \<open>createSpecialEmoji\<close> writes the special tile there.
\<close>

theorem special_position_listed_and_in_bounds:
  assumes wf: "wf_board b" and ms: "ms = findMatches b @ findShapedMatches (findMatches b)"
  shows "(\<forall>m \<in> set ms. positions m \<noteq> [])
       \<and> (\<forall>sp \<in> set (createSpecialEmojis ms).
            originalMatch sp \<in> set ms
          \<and> position sp \<in> set (positions (originalMatch sp))
          \<and> position sp =
              (if isShaped (originalMatch sp) then intersection (originalMatch sp)
               else positions (originalMatch sp) ! (length (positions (originalMatch sp)) div 2))
          \<and> isValidPosition b (row (position sp)) (col (position sp))
          \<and> getEmoji (createSpecialEmoji b (row (position sp)) (col (position sp)) (typeS sp))
               (row (position sp)) (col (position sp)) = map_of specialEmojis (typeS sp))"
proof -
  have lin: "positions m \<noteq> [] \<and> \<not> isShaped m" if "m \<in> set (findMatches b)" for m
    using that findMatches_inv [of b] by (simp add: positionsOK_def maximalRun_def)
  have shp: "isShaped m \<and> intersection m \<in> set (positions m) \<and>
             isValidPosition b (row (intersection m)) (col (intersection m))"
    if "m \<in> set (findShapedMatches (findMatches b))" for m
  proof -
    from that obtain h v where hv: "m = Shaped (getShapeType h v) (emoji h)
          (removeDuplicates (positions h @ positions v) [] []) (Pos (rowM h) (colM v)) h v"
        "h \<in> set (findMatches b)" "isHorizontal h" "startCol h \<le> colM v" "colM v \<le> endCol h"
      unfolding findShapedMatches_set by blast
    from shaped_intersection_listed [OF hv(2,3,4,5)]
    have inh: "Pos (rowM h) (colM v) \<in> set (positions h)" .
    from listed_position_valid [OF hv(2) inh] inh hv(1) show ?thesis by simp
  qed
  have all_ne: "\<forall>m \<in> set ms. positions m \<noteq> []"
  proof
    fix m assume "m \<in> set ms"
    with ms have "m \<in> set (findMatches b) \<or> m \<in> set (findShapedMatches (findMatches b))"
      by simp
    then show "positions m \<noteq> []"
    proof
      assume "m \<in> set (findMatches b)"
      from lin [OF this] show ?thesis by simp
    next
      assume "m \<in> set (findShapedMatches (findMatches b))"
      from shp [OF this] have "intersection m \<in> set (positions m)" by simp
      then show ?thesis by auto
    qed
  qed
  have each: "originalMatch sp \<in> set ms
          \<and> position sp \<in> set (positions (originalMatch sp))
          \<and> position sp =
              (if isShaped (originalMatch sp) then intersection (originalMatch sp)
               else positions (originalMatch sp) ! (length (positions (originalMatch sp)) div 2))
          \<and> isValidPosition b (row (position sp)) (col (position sp))"
    if sp: "sp \<in> set (createSpecialEmojis ms)" for sp
  proof -
    from sp obtain m where m: "m \<in> set ms" "sp \<in> set (tierRule m)"
      by (auto simp: createSpecialEmojis_per_match)
    show ?thesis
    proof (cases "m \<in> set (findMatches b)")
      case True
      from lin [OF True] have ne: "positions m \<noteq> []" and ns: "\<not> isShaped m" by simp_all
      from ne have idx: "length (positions m) div 2 < length (positions m)" by simp
      from m(2) ns ne have orig: "originalMatch sp = m"
        and pos: "position sp = positions m ! (length (positions m) div 2)"
        by (auto simp: tierRule_def split: if_splits)
      from pos idx have "position sp \<in> set (positions m)" by simp
      with listed_position_valid [OF True, of "position sp"] orig pos ns m(1)
      show ?thesis by simp
    next
      case False
      with m(1) ms have sm: "m \<in> set (findShapedMatches (findMatches b))" by simp
      from shp [OF sm] m(2) have "originalMatch sp = m" "position sp = intersection m"
        by (auto simp: tierRule_def)
      with shp [OF sm] m(1) show ?thesis by simp
    qed
  qed
  show ?thesis
  proof (intro conjI ballI)
    fix m assume "m \<in> set ms" with all_ne show "positions m \<noteq> []" by simp
  next
    fix sp assume sp: "sp \<in> set (createSpecialEmojis ms)"
    from each [OF sp]
    show "originalMatch sp \<in> set ms"
      and "position sp \<in> set (positions (originalMatch sp))"
      and "position sp =
              (if isShaped (originalMatch sp) then intersection (originalMatch sp)
               else positions (originalMatch sp) ! (length (positions (originalMatch sp)) div 2))"
      and v: "isValidPosition b (row (position sp)) (col (position sp))"
      by blast+
    from getEmoji_createSpecialEmoji [OF wf v]
    show "getEmoji (createSpecialEmoji b (row (position sp)) (col (position sp)) (typeS sp))
               (row (position sp)) (col (position sp)) = map_of specialEmojis (typeS sp)" .
  qed
qed

theorem special_position_listed_and_in_bounds_witness:
  "wf_board crossBoard
   \<and> Special bomb (Pos 2 3)
        (Shaped T apple [Pos 2 1, Pos 2 2, Pos 2 3, Pos 2 4, Pos 0 3, Pos 1 3, Pos 3 3]
           (Pos 2 3) crossHorizontal crossVertical)
       \<in> set (createSpecialEmojis
               (findMatches crossBoard @ findShapedMatches (findMatches crossBoard)))
   \<and> Special striped (Pos 1 3) crossVertical
       \<in> set (createSpecialEmojis
               (findMatches crossBoard @ findShapedMatches (findMatches crossBoard)))
   \<and> Pos 1 3 \<in> set (positions crossVertical)
   \<and> isValidPosition crossBoard 1 3 \<and> isValidPosition crossBoard 2 3
   \<and> getEmoji (createSpecialEmoji crossBoard 2 3 bomb) 2 3 = Some blast
   \<and> getEmoji (createSpecialEmoji crossBoard 1 3 striped) 1 3 = Some bolt"
proof -
  let ?ms = "findMatches crossBoard @ findShapedMatches (findMatches crossBoard)"
  let ?bomb = "Special bomb (Pos 2 3)
        (Shaped T apple [Pos 2 1, Pos 2 2, Pos 2 3, Pos 2 4, Pos 0 3, Pos 1 3, Pos 3 3]
           (Pos 2 3) crossHorizontal crossVertical)"
  let ?str = "Special striped (Pos 1 3) crossVertical"
  have inn: "?bomb \<in> set (createSpecialEmojis ?ms)" "?str \<in> set (createSpecialEmojis ?ms)"
    by (simp_all add: createSpecialEmojis_crossBoard)
  from special_position_listed_and_in_bounds [OF wf_crossBoard refl]
  have all: "\<forall>sp \<in> set (createSpecialEmojis ?ms).
      position sp \<in> set (positions (originalMatch sp))
      \<and> isValidPosition crossBoard (row (position sp)) (col (position sp))
      \<and> getEmoji (createSpecialEmoji crossBoard (row (position sp)) (col (position sp)) (typeS sp))
               (row (position sp)) (col (position sp)) = map_of specialEmojis (typeS sp)"
    by blast
  from all inn(1) have b: "isValidPosition crossBoard 2 3"
    "getEmoji (createSpecialEmoji crossBoard 2 3 bomb) 2 3 = map_of specialEmojis bomb"
    by force+
  from all inn(2) have s: "Pos 1 3 \<in> set (positions crossVertical)"
    "isValidPosition crossBoard 1 3"
    "getEmoji (createSpecialEmoji crossBoard 1 3 striped) 1 3 = map_of specialEmojis striped"
    by force+
  from b s inn wf_crossBoard show ?thesis by (simp add: specialEmojis_def)
qed

end
